theory Spec2Isabelle
  imports Main "HOL-Library.Sublist"
begin

section \<open>Data model of the AI service (services/ai.ts, services/storage.ts)\<close>

text \<open>
  \<^verbatim>\<open>export type AIProvider = 'openai' | 'anthropic' | 'gemini';\<close>
  The string a provider is printed as inside template literals is \<open>providerName\<close>.
\<close>

datatype AIProvider = Gemini | OpenAI | Anthropic

fun providerName :: "AIProvider \<Rightarrow> string" where
  "providerName Gemini = ''gemini''"
| "providerName OpenAI = ''openai''"
| "providerName Anthropic = ''anthropic''"

datatype Role = User | Assistant | System

record Message =
  role :: Role
  content :: string

text \<open>
  \<^verbatim>\<open>export type ErrorClass = 'timeout' | 'auth' | 'rate_limit' | 'network' | 'provider' | 'unknown';\<close>
\<close>

datatype ErrorClass = Timeout | Auth | RateLimit | Network | Provider | Unknown

fun errorClassName :: "ErrorClass \<Rightarrow> string" where
  "errorClassName Timeout = ''timeout''"
| "errorClassName Auth = ''auth''"
| "errorClassName RateLimit = ''rate_limit''"
| "errorClassName Network = ''network''"
| "errorClassName Provider = ''provider''"
| "errorClassName Unknown = ''unknown''"

datatype Health = Healthy | Degraded | Error | Unconfigured

text \<open>
  The values that are thrown inside sendMessage (by an adapter, a parser, a validator, an
  observer or the secret store). Three shapes are told apart by \<open>classifyError\<close>: an
  \<open>Error\<close> instance, with its message and, when the property is present, its
  \<open>classification\<close>; any other object, with or without a \<open>classification\<close>
  property; and everything that is not an object (or is \<open>null\<close>). These values are
  well typed and extensible: a \<open>classification\<close> property holds an \<open>ErrorClass\<close>,
  as the interface \<open>ClassifiedError\<close> declares, and an \<open>Error\<close> accepts a new
  property. \<open>classifyError\<close> itself takes a value of type \<open>unknown\<close>; what it does on
  every such value, ill typed and sealed ones included, is \<open>classifyError_unknown\<close> below.
\<close>

datatype thrown =
    JsError string "ErrorClass option"
  | JsObject "ErrorClass option"
  | JsPrimitive

fun classification :: "thrown \<Rightarrow> ErrorClass option" where
  "classification (JsError m c) = c"
| "classification (JsObject c) = c"
| "classification JsPrimitive = None"

fun message :: "thrown \<Rightarrow> string option" where
  "message (JsError m c) = Some m"
| "message (JsObject c) = None"
| "message JsPrimitive = None"

section \<open>Strings: \<open>toLowerCase\<close> and \<open>includes\<close>\<close>

text \<open>
  Messages are ASCII strings here; \<open>toLowerCase\<close> maps the letters A to Z to a to z
  and leaves every other character alone.
\<close>

definition toLowerChar :: "char \<Rightarrow> char" where
  "toLowerChar c =
     (case map_of (zip ''ABCDEFGHIJKLMNOPQRSTUVWXYZ'' ''abcdefghijklmnopqrstuvwxyz'') c of
        Some d \<Rightarrow> d
      | None \<Rightarrow> c)"

definition toLowerCase :: "string \<Rightarrow> string" where
  "toLowerCase s = map toLowerChar s"

text \<open>\<open>s.includes(t)\<close>: \<open>t\<close> occurs in \<open>s\<close> as a contiguous substring.\<close>

fun js_includes :: "'a list \<Rightarrow> 'a list \<Rightarrow> bool" where
  "js_includes [] t = (t = [])"
| "js_includes (x # xs) t = (prefix t (x # xs) \<or> js_includes xs t)"

section \<open>classifyError\<close>

text \<open>
  \<^verbatim>\<open>
  const classifyError = (provider, error) => {
    if (error && typeof error === 'object' && 'classification' in error) return error;
    const err = error instanceof Error ? error : new Error(`${provider} request failed`);
    const message = err.message.toLowerCase();
    ... if / else-if chain over message.includes(...) ...
    return classified;
  };
  \<close>
\<close>

definition kindOfMessage :: "string \<Rightarrow> ErrorClass" where
  "kindOfMessage msg =
     (if js_includes msg ''missing'' \<or> js_includes msg ''invalid key''
         \<or> js_includes msg ''unauthorized'' \<or> js_includes msg ''401'' then Auth
      else if js_includes msg ''timeout'' then Timeout
      else if js_includes msg ''429'' \<or> js_includes msg ''rate'' then RateLimit
      else if js_includes msg ''network'' \<or> js_includes msg ''fetch'' then Network
      else if js_includes msg ''provider'' then Provider
      else Unknown)"

definition classifyError :: "AIProvider \<Rightarrow> thrown \<Rightarrow> thrown" where
  "classifyError provider error =
     (if error \<noteq> JsPrimitive \<and> classification error \<noteq> None then error
      else
        let err_message = (case error of
                             JsError m c \<Rightarrow> m
                           | _ \<Rightarrow> providerName provider @ '' request failed'');
            msg = toLowerCase err_message
        in JsError err_message (Some (kindOfMessage msg)))"

text \<open>
  classifyError on an arbitrary value of type \<open>unknown\<close>. The test of the first line,
  \<^verbatim>\<open>'classification' in error\<close>, asks for the presence of the property only: the value
  it holds is one of the six kinds (\<open>Kind\<close>) or anything else (\<open>NotAKind\<close>:
  \<open>undefined\<close>, a number, another string), and the object is returned as it is in both
  cases. An \<open>Error\<close> instance without the property is annotated in place by
  \<^verbatim>\<open>classified.classification = ...\<close>; the module is in strict mode, so the assignment
  throws a \<open>TypeError\<close> when the instance is not extensible (frozen, sealed). An
  \<open>Error\<close> instance is \<open>ErrorInstance extensible message property\<close>. The outcome is
  \<open>Inr\<close> the value returned or \<open>Inl\<close> the value thrown.
\<close>

datatype js_kind = Kind ErrorClass | NotAKind

datatype js_unknown =
    ErrorInstance bool string "js_kind option"
  | OtherObject "js_kind option"
  | NotAnObject

fun classificationProperty :: "js_unknown \<Rightarrow> js_kind option" where
  "classificationProperty (ErrorInstance extensible m c) = c"
| "classificationProperty (OtherObject c) = c"
| "classificationProperty NotAnObject = None"

fun messageProperty :: "js_unknown \<Rightarrow> string option" where
  "messageProperty (ErrorInstance extensible m c) = Some m"
| "messageProperty (OtherObject c) = None"
| "messageProperty NotAnObject = None"

definition notExtensibleError :: js_unknown where
  "notExtensibleError =
     ErrorInstance True ''Cannot add property classification, object is not extensible'' None"

text \<open>
  \<open>err.message\<close> of an \<open>Error\<close> instance, \<open>Object.isExtensible\<close>, and the
  assignment to the property \<open>classification\<close> of an extensible \<open>Error\<close>.
\<close>

fun errMessage :: "js_unknown \<Rightarrow> string" where
  "errMessage (ErrorInstance extensible m c) = m"
| "errMessage error = []"

fun isExtensible :: "js_unknown \<Rightarrow> bool" where
  "isExtensible (ErrorInstance extensible m c) = extensible"
| "isExtensible error = True"

fun setClassification :: "js_unknown \<Rightarrow> ErrorClass \<Rightarrow> js_unknown" where
  "setClassification (ErrorInstance extensible m c) k = ErrorInstance extensible m (Some (Kind k))"
| "setClassification error k = error"

definition classifyError_unknown :: "AIProvider \<Rightarrow> js_unknown \<Rightarrow> js_unknown + js_unknown" where
  "classifyError_unknown provider error =
     (if error \<noteq> NotAnObject \<and> classificationProperty error \<noteq> None then Inr error
      else
        let err = (case error of
                     ErrorInstance extensible m c \<Rightarrow> error
                   | _ \<Rightarrow> ErrorInstance True (providerName provider @ '' request failed'') None);
            msg = toLowerCase (errMessage err)
        in if isExtensible err then Inr (setClassification err (kindOfMessage msg))
           else Inl notExtensibleError)"

text \<open>
  An \<open>Error\<close> instance that cannot be annotated: it has no \<open>classification\<close>
  property and is not extensible.
\<close>

fun sealedUnclassified :: "js_unknown \<Rightarrow> bool" where
  "sealedUnclassified (ErrorInstance extensible m None) = (\<not> extensible)"
| "sealedUnclassified error = False"

text \<open>The values thrown inside sendMessage, as values of type \<open>unknown\<close>.\<close>

fun unknownOf :: "thrown \<Rightarrow> js_unknown" where
  "unknownOf (JsError m c) = ErrorInstance True m (map_option Kind c)"
| "unknownOf (JsObject c) = OtherObject (map_option Kind c)"
| "unknownOf JsPrimitive = NotAnObject"

text \<open>
  The classification table as the specification words it: an ordered list of kinds, each
  with the substrings that select it; the first kind with a matching substring wins and
  \<open>unknown\<close> is the default.
\<close>

definition kindTable :: "(ErrorClass \<times> string list) list" where
  "kindTable =
     [(Auth, [''missing'', ''invalid key'', ''unauthorized'', ''401'']),
      (Timeout, [''timeout'']),
      (RateLimit, [''429'', ''rate'']),
      (Network, [''network'', ''fetch'']),
      (Provider, [''provider''])]"

definition contains :: "string \<Rightarrow> string \<Rightarrow> bool" where
  "contains s t = (\<exists>before after. s = before @ t @ after)"

definition firstMatchingKind :: "string \<Rightarrow> ErrorClass" where
  "firstMatchingKind lowered =
     (case find (\<lambda>(k, words). \<exists>w \<in> set words. contains lowered w) kindTable of
        Some (k, words) \<Rightarrow> k
      | None \<Rightarrow> Unknown)"

section \<open>Candidate list of sendMessage\<close>

text \<open>\<^verbatim>\<open>const PROVIDER_ORDER: AIProvider[] = ['gemini', 'openai', 'anthropic'];\<close>\<close>

definition PROVIDER_ORDER :: "AIProvider list" where
  "PROVIDER_ORDER = [Gemini, OpenAI, Anthropic]"

text \<open>\<open>arr.indexOf(x)\<close>: the first index holding \<open>x\<close>, or \<open>-1\<close>.\<close>

fun indexOf :: "'a list \<Rightarrow> 'a \<Rightarrow> int" where
  "indexOf [] x = - 1"
| "indexOf (y # ys) x =
     (if y = x then 0 else (let r = indexOf ys x in if r < 0 then - 1 else r + 1))"

text \<open>
  \<^verbatim>\<open>
  const candidates = [
    selectedProvider,
    ...PROVIDER_ORDER.filter((provider) => provider !== selectedProvider),
  ].filter((provider, index, arr) => arr.indexOf(provider) === index);
  \<close>
\<close>

definition candidates :: "AIProvider \<Rightarrow> AIProvider list" where
  "candidates selectedProvider =
     (let arr = selectedProvider # filter (\<lambda>provider. provider \<noteq> selectedProvider) PROVIDER_ORDER
      in map fst (filter (\<lambda>(provider, index). indexOf arr provider = int index)
                         (zip arr [0..<length arr])))"


section \<open>Promises, the secret store and the preferences\<close>

text \<open>
  The outcome of an asynchronous operation, as far as a race against a timer can see it:
  it settles \<open>t\<close> milliseconds after it was started, fulfilled with a value (\<open>Inr\<close>)
  or rejected with a thrown value (\<open>Inl\<close>), or it never settles.
\<close>

datatype 'a promise = Settles nat "thrown + 'a" | Never

text \<open>The two fields of \<open>StoragePreferences\<close> and the field of \<open>SecretPayload\<close> that the service reads.\<close>

record StoragePreferences =
  defaultProvider :: AIProvider
  providerFallbackEnabled :: bool

record SecretPayload =
  providerKeys :: "AIProvider \<rightharpoonup> string"

text \<open>Truthiness of a value of type \<open>string | undefined\<close>: present and not empty.\<close>

definition truthy :: "string option \<Rightarrow> bool" where
  "truthy v = (case v of None \<Rightarrow> False | Some s \<Rightarrow> s \<noteq> [])"

text \<open>
  \<^verbatim>\<open>
  withProviderApiKey: async (provider, fn) => {
    const key = readSecrets().providerKeys[provider];
    if (!key) throw new Error(`${provider} API Key missing`);
    return fn(key);
  }
  \<close>
\<close>

definition missingKeyError :: "AIProvider \<Rightarrow> thrown" where
  "missingKeyError provider = JsError (providerName provider @ '' API Key missing'') None"

definition withProviderApiKey ::
  "SecretPayload \<Rightarrow> AIProvider \<Rightarrow> (string \<Rightarrow> 'a promise) \<Rightarrow> 'a promise" where
  "withProviderApiKey secretPayload provider fn =
     (case providerKeys secretPayload provider of
        None \<Rightarrow> Settles 0 (Inl (missingKeyError provider))
      | Some key \<Rightarrow> if key = [] then Settles 0 (Inl (missingKeyError provider)) else fn key)"

text \<open>
  \<^verbatim>\<open>
  getConfiguredProviders: () => {
    const secrets = readSecrets();
    return ['gemini', 'openai', 'anthropic'].filter((provider) => {
      if (provider === 'gemini' && typeof process !== 'undefined' && process.env.GEMINI_API_KEY)
        return true;
      return Boolean(secrets.providerKeys[provider]);
    });
  }
  \<close>
  The environment variable is \<open>None\<close> when \<open>process\<close> is undefined or the variable is unset.
\<close>

definition getConfiguredProviders :: "string option \<Rightarrow> SecretPayload \<Rightarrow> AIProvider list" where
  "getConfiguredProviders envKey secretPayload =
     filter (\<lambda>provider.
               if provider = Gemini \<and> truthy envKey then True
               else truthy (providerKeys secretPayload provider))
            [Gemini, OpenAI, Anthropic]"

section \<open>Events, observers and the state the service works on\<close>

text \<open>
  \<^verbatim>\<open>
  interface ProviderSwitchEvent { from; to; reason: string }
  interface ProviderHealthEvent { provider; health; detail?: string }
  type ProviderRuntimeEvent =
    | { type: 'provider_switch'; from; to; reason }
    | { type: 'provider_health'; provider; health; detail? };
  \<close>
\<close>

datatype ProviderSwitchEvent = Switch AIProvider AIProvider string

datatype ProviderHealthEvent = HealthOf AIProvider Health "string option"

datatype ProviderRuntimeEvent =
    provider_switch AIProvider AIProvider string
  | provider_health AIProvider Health "string option"

text \<open>
  What the service does to the outside, in the order it does it: the console line, the
  calls of the callbacks passed in the options, each publication on the runtime bus and each
  call of a subscribed listener, and each call of an adapter's \<open>complete\<close>.
\<close>

datatype effect =
    ConsoleInfo ProviderSwitchEvent
  | CallOnProviderSwitch ProviderSwitchEvent
  | CallOnProviderEvent string
  | CallOnProviderHealth ProviderHealthEvent
  | EmitRuntimeEvent ProviderRuntimeEvent
  | ListenerCalled nat ProviderRuntimeEvent
  | AdapterComplete AIProvider "Message list"

text \<open>
  A callback or listener either returns (\<open>None\<close>) or throws (\<open>Some\<close>). A subscribed
  listener has an identity, since \<open>runtimeListeners\<close> is a \<open>Set\<close>. Listeners do
  not subscribe or unsubscribe while an event is being delivered.
\<close>

record listener =
  lid :: nat
  react :: "ProviderRuntimeEvent \<Rightarrow> thrown option"

text \<open>
  An adapter is its \<open>complete\<close>: the promise it returns for the merged messages (what it
  does with the options is part of that promise). The service holds the adapters by
  provider and the listeners in subscription order.
\<close>

record AIService =
  adapters :: "AIProvider \<rightharpoonup> (Message list \<Rightarrow> string promise)"
  runtimeListeners :: "listener list"

record world =
  storedPrefs :: StoragePreferences
  storedSecrets :: SecretPayload
  env_GEMINI_API_KEY :: "string option"
  providerHealth :: "AIProvider \<rightharpoonup> Health"
  timers :: "nat list"
  nextTimerId :: nat
  trace :: "effect list"

definition log :: "effect \<Rightarrow> world \<Rightarrow> world" where
  "log e w = w\<lparr>trace := trace w @ [e]\<rparr>"

text \<open>
  The constructor registers one adapter under each provider:
  \<^verbatim>\<open>
  [new GeminiAdapter(), new OpenAIAdapter(), new AnthropicAdapter()].forEach((adapter) => {
    this.adapters.set(adapter.provider, adapter);
  });
  \<close>
\<close>

definition AIService_new :: "(AIProvider \<Rightarrow> Message list \<Rightarrow> string promise) \<Rightarrow> AIService" where
  "AIService_new complete =
     \<lparr>adapters = [Gemini \<mapsto> complete Gemini, OpenAI \<mapsto> complete OpenAI,
                  Anthropic \<mapsto> complete Anthropic],
      runtimeListeners = []\<rparr>"

text \<open>
  \<^verbatim>\<open>
  subscribeRuntimeEvents(listener) {
    this.runtimeListeners.add(listener);
    return () => this.runtimeListeners.delete(listener);
  }
  \<close>
  \<open>Set.add\<close> keeps the first insertion of a listener that is already a member.
\<close>

definition subscribeRuntimeEvents :: "listener \<Rightarrow> AIService \<Rightarrow> AIService" where
  "subscribeRuntimeEvents l svc =
     (if lid l \<in> lid ` set (runtimeListeners svc) then svc
      else svc\<lparr>runtimeListeners := runtimeListeners svc @ [l]\<rparr>)"

definition unsubscribe :: "listener \<Rightarrow> AIService \<Rightarrow> AIService" where
  "unsubscribe l svc =
     svc\<lparr>runtimeListeners := filter (\<lambda>k. lid k \<noteq> lid l) (runtimeListeners svc)\<rparr>"

text \<open>
  \<^verbatim>\<open>
  private emitRuntimeEvent(event) {
    this.runtimeListeners.forEach((listener) => listener(event));
  }
  \<close>
  \<open>forEach\<close> visits the listeners in insertion order; an exception of a listener leaves
  the loop and the method.
\<close>

fun deliver :: "listener list \<Rightarrow> ProviderRuntimeEvent \<Rightarrow> world \<Rightarrow> (thrown + unit) \<times> world" where
  "deliver [] event w = (Inr (), w)"
| "deliver (l # ls) event w =
     (case react l event of
        Some t \<Rightarrow> (Inl t, log (ListenerCalled (lid l) event) w)
      | None \<Rightarrow> deliver ls event (log (ListenerCalled (lid l) event) w))"

definition emitRuntimeEvent :: "AIService \<Rightarrow> ProviderRuntimeEvent \<Rightarrow> world \<Rightarrow> (thrown + unit) \<times> world" where
  "emitRuntimeEvent svc event w = deliver (runtimeListeners svc) event (log (EmitRuntimeEvent event) w)"

section \<open>withTimeout\<close>

text \<open>Decimal digits of a number, as a template literal prints it.\<close>

fun showNat :: "nat \<Rightarrow> string" where
  "showNat n = (if n < 10 then [''0123456789'' ! n] else showNat (n div 10) @ [''0123456789'' ! (n mod 10)])"

declare showNat.simps [simp del]

text \<open>
  Reading a string of decimal digits back: \<open>digitValue\<close> is the position of a character
  among the ten digits and \<open>readNat\<close> the number that a string of digits denotes.
\<close>

definition digitValue :: "char \<Rightarrow> nat" where
  "digitValue c = length (takeWhile (\<lambda>d. d \<noteq> c) ''0123456789'')"

definition readNat :: "string \<Rightarrow> nat" where
  "readNat digits = foldl (\<lambda>n c. 10 * n + digitValue c) 0 digits"

text \<open>
  The timers of the event loop: \<open>timers\<close> holds the identifiers of the timers that are
  scheduled and have neither fired nor been cleared.
\<close>

definition setTimeout :: "world \<Rightarrow> nat \<times> world" where
  "setTimeout w =
     (nextTimerId w, w\<lparr>timers := timers w @ [nextTimerId w], nextTimerId := Suc (nextTimerId w)\<rparr>)"

definition timerFired :: "nat \<Rightarrow> world \<Rightarrow> world" where
  "timerFired timeoutId w = w\<lparr>timers := filter (\<lambda>t. t \<noteq> timeoutId) (timers w)\<rparr>"

definition clearTimeout :: "nat \<Rightarrow> world \<Rightarrow> world" where
  "clearTimeout timeoutId w = w\<lparr>timers := filter (\<lambda>t. t \<noteq> timeoutId) (timers w)\<rparr>"

text \<open>
  \<^verbatim>\<open>
  const withTimeout = async (promise, timeoutMs, provider) => {
    let timeoutId;
    const timeoutPromise = new Promise((_, reject) => {
      timeoutId = setTimeout(() => {
        const timeoutError = new Error(`${provider} request timed out after ${timeoutMs}ms`);
        timeoutError.classification = 'timeout';
        reject(timeoutError);
      }, timeoutMs);
    });
    try { return await Promise.race([promise, timeoutPromise]); }
    finally { clearTimeout(timeoutId!); }
  };
  \<close>
  \<open>Promise.race\<close> settles as the first of the two that settles. \<open>timeoutMs\<close> is a
  whole number of milliseconds and prints as its decimal digits; nothing in the function
  checks its range.
\<close>

text \<open>
  The delay after which a timer really fires. \<open>setTimeout\<close> accepts a delay between 1
  and \<open>TIMEOUT_MAX\<close> = 2^31 - 1 milliseconds and replaces every other delay by 1
  millisecond (the rule of the timers of Node; the 32-bit delay of a browser also makes a
  timer asked for 2^31 milliseconds fire at once).
\<close>

definition TIMEOUT_MAX :: nat where
  "TIMEOUT_MAX = 2147483647"

definition timerDelay :: "nat \<Rightarrow> nat" where
  "timerDelay delay = (if 1 \<le> delay \<and> delay \<le> TIMEOUT_MAX then delay else 1)"

text \<open>
  The race of \<open>withTimeout\<close>. The operation is the first entry of the race and was
  started before the timer was set, so an operation that has settled when the timer's
  callback runs, also one that settles in the very millisecond the timer is due, wins; the
  timer wins against an operation that settles later or never.
\<close>

definition timeoutError :: "AIProvider \<Rightarrow> nat \<Rightarrow> thrown" where
  "timeoutError provider timeoutMs =
     JsError (providerName provider @ '' request timed out after '' @ showNat timeoutMs @ ''ms'')
             (Some Timeout)"

definition withTimeout :: "'a promise \<Rightarrow> nat \<Rightarrow> AIProvider \<Rightarrow> world \<Rightarrow> (thrown + 'a) \<times> world" where
  "withTimeout promise timeoutMs provider w =
     (let (timeoutId, w1) = setTimeout w;
          (raced, w2) = (case promise of
                           Settles t r \<Rightarrow>
                             if t \<le> timerDelay timeoutMs then (r, w1)
                             else (Inl (timeoutError provider timeoutMs), timerFired timeoutId w1)
                         | Never \<Rightarrow> (Inl (timeoutError provider timeoutMs), timerFired timeoutId w1))
      in (raced, clearTimeout timeoutId w2))"

section \<open>sendMessage\<close>

text \<open>
  \<^verbatim>\<open>
  interface StructuredParser<T> { parse: (raw: string) => T; validate?: (value: T) => boolean }
  interface SendMessageOptions<T> { provider?; systemPrompt?; timeoutMs?; enableFallback?;
    onToken?; onToolInvocation?; onProviderSwitch?; onProviderEvent?; onProviderHealth?;
    structured? }
  interface SendMessageResult<T> { text; provider; structured?; fallbackUsed }
  \<close>
  \<open>onToken\<close> and \<open>onToolInvocation\<close> are used by the adapters only. \<open>parse\<close> and
  \<open>validate\<close> may throw.
\<close>

record 'T StructuredParser =
  parse :: "string \<Rightarrow> thrown + 'T"
  validate :: "('T \<Rightarrow> thrown + bool) option"

record 'T SendMessageOptions =
  opt_provider :: "AIProvider option"
  opt_systemPrompt :: "string option"
  opt_timeoutMs :: "nat option"
  opt_enableFallback :: "bool option"
  onProviderSwitch :: "(ProviderSwitchEvent \<Rightarrow> thrown option) option"
  onProviderEvent :: "(string \<Rightarrow> thrown option) option"
  onProviderHealth :: "(ProviderHealthEvent \<Rightarrow> thrown option) option"
  structured :: "'T StructuredParser option"

record 'T SendMessageResult =
  res_text :: string
  res_provider :: AIProvider
  res_structured :: "'T option"
  fallbackUsed :: bool

definition DEFAULT_TIMEOUT_MS :: nat where
  "DEFAULT_TIMEOUT_MS = 20000"

text \<open>The next statement runs only when the one before it has not thrown.\<close>

definition andThen ::
  "(thrown + 'a) \<times> world \<Rightarrow> ('a \<Rightarrow> world \<Rightarrow> (thrown + 'b) \<times> world) \<Rightarrow> (thrown + 'b) \<times> world" where
  "andThen r k = (case r of (Inl t, w) \<Rightarrow> (Inl t, w) | (Inr a, w) \<Rightarrow> k a w)"

text \<open>\<open>callback?.(event)\<close>: nothing happens when the callback was not passed.\<close>

definition callOptional ::
  "('e \<Rightarrow> thrown option) option \<Rightarrow> 'e \<Rightarrow> effect \<Rightarrow> world \<Rightarrow> (thrown + unit) \<times> world" where
  "callOptional callback event eff w =
     (case callback of
        None \<Rightarrow> (Inr (), w)
      | Some f \<Rightarrow> (case f event of None \<Rightarrow> (Inr (), log eff w) | Some t \<Rightarrow> (Inl t, log eff w)))"

text \<open>
  Modelled from the spec: \<open>storage.saveProviderHealth(provider, health)\<close> is called by
  \<open>sendMessage\<close> and its body is not among the sources. The specification has it record
  the health of the provider in the store (\<open>HealthState[candidate] = health\<close>, "writes
  through to the external preference/health store").
\<close>

definition saveProviderHealth :: "AIProvider \<Rightarrow> Health \<Rightarrow> world \<Rightarrow> world" where
  "saveProviderHealth provider health w = w\<lparr>providerHealth := (providerHealth w)(provider \<mapsto> health)\<rparr>"

text \<open>
  The block run before every attempt but the first:
  \<^verbatim>\<open>
  const previous = providersToTry[i - 1];
  const event = { from: previous, to: provider, reason: lastError?.classification ?? 'provider' };
  console.info('[AI fallback] provider switch', event);
  options.onProviderSwitch?.(event);
  options.onProviderEvent?.(`Switched from ${previous} to ${provider} (${event.reason}).`);
  this.emitRuntimeEvent({ type: 'provider_switch', ...event });
  \<close>
\<close>

definition switchReason :: "thrown option \<Rightarrow> string" where
  "switchReason lastError =
     (case lastError of
        None \<Rightarrow> ''provider''
      | Some e \<Rightarrow> (case classification e of None \<Rightarrow> ''provider'' | Some k \<Rightarrow> errorClassName k))"

definition announceSwitch ::
  "AIService \<Rightarrow> 'T SendMessageOptions \<Rightarrow> AIProvider \<Rightarrow> AIProvider \<Rightarrow> thrown option \<Rightarrow> world
     \<Rightarrow> (thrown + unit) \<times> world" where
  "announceSwitch svc options previous provider lastError w =
     (let reason = switchReason lastError;
          event = Switch previous provider reason
      in andThen (callOptional (onProviderSwitch options) event (CallOnProviderSwitch event)
                    (log (ConsoleInfo event) w)) (\<lambda>_ w1.
         andThen (callOptional (onProviderEvent options)
                    (''Switched from '' @ providerName previous @ '' to '' @ providerName provider
                       @ '' ('' @ reason @ '').'')
                    (CallOnProviderEvent
                       (''Switched from '' @ providerName previous @ '' to '' @ providerName provider
                          @ '' ('' @ reason @ '').''))
                    w1) (\<lambda>_ w2.
         emitRuntimeEvent svc (provider_switch previous provider reason) w2)))"

text \<open>
  The body of the \<open>try\<close>:
  \<^verbatim>\<open>
  const text = await withTimeout(adapter.complete(mergedMessages, options), timeoutMs, provider);
  storage.saveProviderHealth(provider, 'healthy');
  options.onProviderHealth?.({ provider, health: 'healthy' });
  this.emitRuntimeEvent({ type: 'provider_health', provider, health: 'healthy' });
  const result = { text, provider, fallbackUsed: i > 0 };
  if (options.structured) {
    const parsed = options.structured.parse(text);
    if (options.structured.validate && !options.structured.validate(parsed)) {
      throw new Error('Structured output validation failed');
    }
    result.structured = parsed;
  }
  return result;
  \<close>
\<close>

definition structuredValidationError :: thrown where
  "structuredValidationError = JsError ''Structured output validation failed'' None"

definition applyStructured ::
  "'T StructuredParser option \<Rightarrow> 'T SendMessageResult \<Rightarrow> thrown + 'T SendMessageResult" where
  "applyStructured sp result =
     (case sp of
        None \<Rightarrow> Inr result
      | Some s \<Rightarrow>
          (case parse s (res_text result) of
             Inl t \<Rightarrow> Inl t
           | Inr parsed \<Rightarrow>
               (case validate s of
                  None \<Rightarrow> Inr (result\<lparr>res_structured := Some parsed\<rparr>)
                | Some v \<Rightarrow>
                    (case v parsed of
                       Inl t \<Rightarrow> Inl t
                     | Inr ok \<Rightarrow>
                         if \<not> ok then Inl structuredValidationError
                         else Inr (result\<lparr>res_structured := Some parsed\<rparr>)))))"

definition attempt ::
  "AIService \<Rightarrow> 'T SendMessageOptions \<Rightarrow> (Message list \<Rightarrow> string promise) \<Rightarrow> Message list \<Rightarrow> nat
     \<Rightarrow> AIProvider \<Rightarrow> nat \<Rightarrow> world \<Rightarrow> (thrown + 'T SendMessageResult) \<times> world" where
  "attempt svc options complete mergedMessages timeoutMs provider i w =
     andThen (withTimeout (complete mergedMessages) timeoutMs provider
                (log (AdapterComplete provider mergedMessages) w)) (\<lambda>text w1.
     andThen (callOptional (onProviderHealth options) (HealthOf provider Healthy None)
                (CallOnProviderHealth (HealthOf provider Healthy None))
                (saveProviderHealth provider Healthy w1)) (\<lambda>_ w2.
     andThen (emitRuntimeEvent svc (provider_health provider Healthy None) w2) (\<lambda>_ w3.
     (applyStructured (structured options)
        \<lparr>res_text = text, res_provider = provider, res_structured = None, fallbackUsed = (i > 0)\<rparr>,
      w3))))"

text \<open>
  The \<open>catch\<close> block up to the decision whether to go on; it yields \<open>lastError\<close>:
  \<^verbatim>\<open>
  lastError = classifyError(provider, error);
  const health = lastError.classification === 'auth' ? 'unconfigured' : 'error';
  storage.saveProviderHealth(provider, health);
  options.onProviderHealth?.({ provider, health, detail: lastError.message });
  this.emitRuntimeEvent({ type: 'provider_health', provider, health, detail: lastError.message });
  \<close>
\<close>

definition failureHealth :: "thrown \<Rightarrow> Health" where
  "failureHealth lastError = (if classification lastError = Some Auth then Unconfigured else Error)"

definition handleFailure ::
  "AIService \<Rightarrow> 'T SendMessageOptions \<Rightarrow> AIProvider \<Rightarrow> thrown \<Rightarrow> world \<Rightarrow> (thrown + thrown) \<times> world" where
  "handleFailure svc options provider error w =
     (let lastError = classifyError provider error;
          health = failureHealth lastError
      in andThen (callOptional (onProviderHealth options) (HealthOf provider health (message lastError))
                    (CallOnProviderHealth (HealthOf provider health (message lastError)))
                    (saveProviderHealth provider health w)) (\<lambda>_ w1.
         andThen (emitRuntimeEvent svc (provider_health provider health (message lastError)) w1) (\<lambda>_ w2.
         (Inr lastError, w2))))"

text \<open>
  The loop over \<open>providersToTry\<close>, from index \<open>i\<close> on, and the statement after it:
  \<^verbatim>\<open>
  for (let i = 0; i < providersToTry.length; i += 1) {
    const provider = providersToTry[i];
    const adapter = this.adapters.get(provider);
    if (!adapter) continue;
    if (i > 0) { ... }
    try { ... return result; }
    catch (error) {
      ...
      const canFallback = fallbackEnabled && i < providersToTry.length - 1;
      if (!canFallback) throw lastError;
    }
  }
  throw lastError ?? new Error('No providers available');
  \<close>
\<close>

definition noProvidersError :: thrown where
  "noProvidersError = JsError ''No providers available'' None"

function sendLoop ::
  "AIService \<Rightarrow> 'T SendMessageOptions \<Rightarrow> bool \<Rightarrow> nat \<Rightarrow> Message list \<Rightarrow> AIProvider list \<Rightarrow> nat
     \<Rightarrow> thrown option \<Rightarrow> world \<Rightarrow> (thrown + 'T SendMessageResult) \<times> world" where
  "sendLoop svc options fallbackEnabled timeoutMs mergedMessages providersToTry i lastError w =
     (if i < length providersToTry then
        (case adapters svc (providersToTry ! i) of
           None \<Rightarrow>
             sendLoop svc options fallbackEnabled timeoutMs mergedMessages providersToTry (i + 1) lastError w
         | Some complete \<Rightarrow>
             (case (if i > 0
                    then announceSwitch svc options (providersToTry ! (i - 1)) (providersToTry ! i) lastError w
                    else (Inr (), w)) of
                (Inl t, w1) \<Rightarrow> (Inl t, w1)
              | (Inr _, w1) \<Rightarrow>
                  (case attempt svc options complete mergedMessages timeoutMs (providersToTry ! i) i w1 of
                     (Inr result, w2) \<Rightarrow> (Inr result, w2)
                   | (Inl error, w2) \<Rightarrow>
                       (case handleFailure svc options (providersToTry ! i) error w2 of
                          (Inl t, w3) \<Rightarrow> (Inl t, w3)
                        | (Inr lastError', w3) \<Rightarrow>
                            if fallbackEnabled \<and> i < length providersToTry - 1
                            then sendLoop svc options fallbackEnabled timeoutMs mergedMessages
                                   providersToTry (i + 1) (Some lastError') w3
                            else (Inl lastError', w3)))))
      else (Inl (case lastError of Some e \<Rightarrow> e | None \<Rightarrow> noProvidersError), w))"
  by pat_completeness auto
termination
  by (relation "measure (\<lambda>(svc, options, fallbackEnabled, timeoutMs, mergedMessages, providersToTry, i, lastError, w).
                           length providersToTry - i)") auto

declare sendLoop.simps [simp del]

text \<open>
  \<^verbatim>\<open>
  const prefs = storage.getPreferences();
  const selectedProvider = options.provider ?? prefs.defaultProvider;
  const fallbackEnabled = options.enableFallback ?? prefs.providerFallbackEnabled;
  const timeoutMs = options.timeoutMs ?? DEFAULT_TIMEOUT_MS;
  const mergedMessages = options.systemPrompt
    ? [{ role: 'system', content: options.systemPrompt }, ...messages] : messages;
  const configuredProviders = storage.getConfiguredProviders();
  const candidates = ...;
  const healthyCandidates = candidates.filter((provider) => configuredProviders.includes(provider));
  const providersToTry = healthyCandidates.length > 0 ? healthyCandidates : candidates;
  \<close>
\<close>

definition selectedProviderOf :: "'T SendMessageOptions \<Rightarrow> world \<Rightarrow> AIProvider" where
  "selectedProviderOf options w =
     (case opt_provider options of Some p \<Rightarrow> p | None \<Rightarrow> defaultProvider (storedPrefs w))"

definition fallbackEnabledOf :: "'T SendMessageOptions \<Rightarrow> world \<Rightarrow> bool" where
  "fallbackEnabledOf options w =
     (case opt_enableFallback options of Some b \<Rightarrow> b | None \<Rightarrow> providerFallbackEnabled (storedPrefs w))"

definition timeoutMsOf :: "'T SendMessageOptions \<Rightarrow> nat" where
  "timeoutMsOf options = (case opt_timeoutMs options of Some t \<Rightarrow> t | None \<Rightarrow> DEFAULT_TIMEOUT_MS)"

definition mergedMessagesOf :: "'T SendMessageOptions \<Rightarrow> Message list \<Rightarrow> Message list" where
  "mergedMessagesOf options messages =
     (case opt_systemPrompt options of
        None \<Rightarrow> messages
      | Some p \<Rightarrow> if p = [] then messages else \<lparr>role = System, content = p\<rparr> # messages)"

definition providersToTryOf :: "'T SendMessageOptions \<Rightarrow> world \<Rightarrow> AIProvider list" where
  "providersToTryOf options w =
     (let configuredProviders = getConfiguredProviders (env_GEMINI_API_KEY w) (storedSecrets w);
          healthyCandidates = filter (\<lambda>provider. provider \<in> set configuredProviders)
                                     (candidates (selectedProviderOf options w))
      in if length healthyCandidates > 0 then healthyCandidates
         else candidates (selectedProviderOf options w))"

definition sendMessage ::
  "AIService \<Rightarrow> Message list \<Rightarrow> 'T SendMessageOptions \<Rightarrow> world
     \<Rightarrow> (thrown + 'T SendMessageResult) \<times> world" where
  "sendMessage svc messages options w =
     sendLoop svc options (fallbackEnabledOf options w) (timeoutMsOf options)
       (mergedMessagesOf options messages) (providersToTryOf options w) 0 None w"

section \<open>Reading the trace\<close>

text \<open>The events published on the runtime bus, the providers attempted, the callback calls.\<close>

fun emitted :: "effect list \<Rightarrow> ProviderRuntimeEvent list" where
  "emitted [] = []"
| "emitted (EmitRuntimeEvent ev # es) = ev # emitted es"
| "emitted (e # es) = emitted es"

fun attempted :: "effect list \<Rightarrow> AIProvider list" where
  "attempted [] = []"
| "attempted (AdapterComplete p ms # es) = p # attempted es"
| "attempted (e # es) = attempted es"

fun switchCalls :: "effect list \<Rightarrow> ProviderSwitchEvent list" where
  "switchCalls [] = []"
| "switchCalls (CallOnProviderSwitch ev # es) = ev # switchCalls es"
| "switchCalls (e # es) = switchCalls es"

fun healthCalls :: "effect list \<Rightarrow> ProviderHealthEvent list" where
  "healthCalls [] = []"
| "healthCalls (CallOnProviderHealth ev # es) = ev # healthCalls es"
| "healthCalls (e # es) = healthCalls es"

fun listenerCalls :: "effect list \<Rightarrow> (nat \<times> ProviderRuntimeEvent) list" where
  "listenerCalls [] = []"
| "listenerCalls (ListenerCalled n ev # es) = (n, ev) # listenerCalls es"
| "listenerCalls (e # es) = listenerCalls es"

fun isSwitch :: "ProviderRuntimeEvent \<Rightarrow> bool" where
  "isSwitch (provider_switch a b r) = True"
| "isSwitch (provider_health p h d) = False"

fun isHealth :: "ProviderRuntimeEvent \<Rightarrow> bool" where
  "isHealth (provider_health p h d) = True"
| "isHealth (provider_switch a b r) = False"

fun isFailureHealth :: "ProviderRuntimeEvent \<Rightarrow> bool" where
  "isFailureHealth (provider_health p h d) = (h = Error \<or> h = Unconfigured)"
| "isFailureHealth (provider_switch a b r) = False"

text \<open>Effects by what they are about.\<close>

fun isAdapterCall :: "effect \<Rightarrow> bool" where
  "isAdapterCall (AdapterComplete p ms) = True"
| "isAdapterCall e = False"

fun isHealthEffect :: "effect \<Rightarrow> bool" where
  "isHealthEffect (CallOnProviderHealth ev) = True"
| "isHealthEffect (EmitRuntimeEvent (provider_health p h d)) = True"
| "isHealthEffect (ListenerCalled n (provider_health p h d)) = True"
| "isHealthEffect e = False"

fun isSwitchEffect :: "effect \<Rightarrow> bool" where
  "isSwitchEffect (ConsoleInfo ev) = True"
| "isSwitchEffect (CallOnProviderSwitch ev) = True"
| "isSwitchEffect (CallOnProviderEvent s) = True"
| "isSwitchEffect (EmitRuntimeEvent (provider_switch a b r)) = True"
| "isSwitchEffect (ListenerCalled n (provider_switch a b r)) = True"
| "isSwitchEffect e = False"

text \<open>The state \<open>w'\<close> has the trace of \<open>w\<close> followed by effects that all satisfy \<open>P\<close>.\<close>

definition appends :: "(effect \<Rightarrow> bool) \<Rightarrow> world \<Rightarrow> world \<Rightarrow> bool" where
  "appends P w w' = (\<exists>d. trace w' = trace w @ d \<and> list_all P d)"

text \<open>
  The observers are quiet when no subscribed listener and no callback of the options throws.
\<close>

definition quiet :: "AIService \<Rightarrow> 'T SendMessageOptions \<Rightarrow> bool" where
  "quiet svc options =
     ((\<forall>l \<in> set (runtimeListeners svc). \<forall>event. react l event = None)
      \<and> (\<forall>f event. onProviderSwitch options = Some f \<longrightarrow> f event = None)
      \<and> (\<forall>f s. onProviderEvent options = Some f \<longrightarrow> f s = None)
      \<and> (\<forall>f event. onProviderHealth options = Some f \<longrightarrow> f event = None))"

text \<open>
  The request of an attempt succeeds when the adapter fulfils its promise before the timer
  of \<open>withTimeout\<close> fires.
\<close>

definition requestSucceeds :: "'a promise \<Rightarrow> nat \<Rightarrow> bool" where
  "requestSucceeds promise timeoutMs =
     (case promise of Settles t (Inr v) \<Rightarrow> t \<le> timerDelay timeoutMs | _ \<Rightarrow> False)"

text \<open>
  The events of a failing attempt: the ProviderHealth event of the catch block for a
  provider that failed with \<open>error\<close>; the ProviderSwitch event announced after \<open>previous\<close>
  has failed with \<open>error\<close>; and the \<open>healthy\<close> event that the \<open>try\<close> emits when the
  request itself has succeeded.
\<close>

definition failureEventOf :: "AIProvider \<Rightarrow> thrown \<Rightarrow> ProviderRuntimeEvent" where
  "failureEventOf provider error =
     provider_health provider (failureHealth (classifyError provider error))
       (message (classifyError provider error))"

definition switchEventOf :: "AIProvider \<Rightarrow> AIProvider \<Rightarrow> thrown \<Rightarrow> ProviderRuntimeEvent" where
  "switchEventOf previous provider error =
     provider_switch previous provider (switchReason (Some (classifyError previous error)))"

definition successEvents :: "'a promise \<Rightarrow> nat \<Rightarrow> AIProvider \<Rightarrow> ProviderRuntimeEvent list" where
  "successEvents promise timeoutMs provider =
     (if requestSucceeds promise timeoutMs then [provider_health provider Healthy None] else [])"

text \<open>The effects that the trace of \<open>w'\<close> has after those of \<open>w\<close>.\<close>

definition newEffects :: "world \<Rightarrow> world \<Rightarrow> effect list" where
  "newEffects w w' = drop (length (trace w)) (trace w')"

text \<open>
  The listeners an event reaches: those before the first one that throws on it, and that one.
\<close>

definition uptoFirstThrow :: "listener list \<Rightarrow> ProviderRuntimeEvent \<Rightarrow> listener list" where
  "uptoFirstThrow ls event =
     takeWhile (\<lambda>l. react l event = None) ls @ take 1 (dropWhile (\<lambda>l. react l event = None) ls)"

section \<open>Concrete services, options and states\<close>

definition emptyWorld :: world where
  "emptyWorld =
     \<lparr>storedPrefs = \<lparr>defaultProvider = Gemini, providerFallbackEnabled = True\<rparr>,
      storedSecrets = \<lparr>providerKeys = Map.empty\<rparr>,
      env_GEMINI_API_KEY = None,
      providerHealth = Map.empty,
      timers = [],
      nextTimerId = 0,
      trace = []\<rparr>"

text \<open>Two listeners: the first throws on every event, the second returns.\<close>

definition throwingListener :: listener where
  "throwingListener = \<lparr>lid = 0, react = (\<lambda>event. Some (JsError ''listener failed'' None))\<rparr>"

definition quietListener :: listener where
  "quietListener = \<lparr>lid = 1, react = (\<lambda>event. None)\<rparr>"

definition idleAdapters :: "AIProvider \<Rightarrow> Message list \<Rightarrow> string promise" where
  "idleAdapters provider messages = Never"

definition busWithThrower :: AIService where
  "busWithThrower =
     subscribeRuntimeEvents quietListener (subscribeRuntimeEvents throwingListener (AIService_new idleAdapters))"

definition busQuiet :: AIService where
  "busQuiet = subscribeRuntimeEvents quietListener (AIService_new idleAdapters)"

text \<open>
  A store with keys for openai and anthropic and none for gemini, and one with all three keys.
\<close>

definition keysBC :: world where
  "keysBC = emptyWorld\<lparr>storedSecrets :=
     \<lparr>providerKeys = [OpenAI \<mapsto> ''sk-openai'', Anthropic \<mapsto> ''sk-anthropic'']\<rparr>\<rparr>"

definition keysABC :: world where
  "keysABC = emptyWorld\<lparr>storedSecrets :=
     \<lparr>providerKeys = [Gemini \<mapsto> ''sk-gemini'', OpenAI \<mapsto> ''sk-openai'',
                       Anthropic \<mapsto> ''sk-anthropic'']\<rparr>\<rparr>"

text \<open>
  Adapters for the scenarios: openai is refused and anthropic answers; every provider
  answers; every provider is unreachable.
\<close>

definition adaptersA :: "AIProvider \<Rightarrow> Message list \<Rightarrow> string promise" where
  "adaptersA provider messages =
     (case provider of
        Gemini \<Rightarrow> Never
      | OpenAI \<Rightarrow> Settles 5 (Inl (JsError ''401 unauthorized'' None))
      | Anthropic \<Rightarrow> Settles 7 (Inr ''hello''))"

definition adaptersOk :: "AIProvider \<Rightarrow> Message list \<Rightarrow> string promise" where
  "adaptersOk provider messages = Settles 5 (Inr ''hi'')"

definition adaptersDown :: "AIProvider \<Rightarrow> Message list \<Rightarrow> string promise" where
  "adaptersDown provider messages = Settles 5 (Inl (JsError ''network down'' None))"

definition serviceA :: AIService where
  "serviceA = subscribeRuntimeEvents quietListener (AIService_new adaptersA)"

definition serviceOk :: AIService where
  "serviceOk = subscribeRuntimeEvents quietListener (AIService_new adaptersOk)"

definition serviceDown :: AIService where
  "serviceDown = subscribeRuntimeEvents quietListener (AIService_new adaptersDown)"

text \<open>
  Options: nothing set; openai selected with quiet switch and health callbacks; the same
  with fallback disabled; a structured parser whose validator rejects every value.
\<close>

definition optionsDefault :: "string SendMessageOptions" where
  "optionsDefault =
     \<lparr>opt_provider = None, opt_systemPrompt = None, opt_timeoutMs = None,
      opt_enableFallback = None, onProviderSwitch = None, onProviderEvent = None,
      onProviderHealth = None, structured = None\<rparr>"

definition optionsA :: "string SendMessageOptions" where
  "optionsA = optionsDefault\<lparr>opt_provider := Some OpenAI,
     onProviderSwitch := Some (\<lambda>event. None), onProviderHealth := Some (\<lambda>event. None)\<rparr>"

definition optionsNoFallback :: "string SendMessageOptions" where
  "optionsNoFallback = optionsA\<lparr>opt_enableFallback := Some False\<rparr>"

text \<open>Fallback switched off, and an \<open>onProviderHealth\<close> callback that throws.\<close>

definition optionsThrowing :: "string SendMessageOptions" where
  "optionsThrowing =
     optionsNoFallback\<lparr>onProviderHealth := Some (\<lambda>event. Some (JsError ''callback failed'' None))\<rparr>"

definition optionsRejecting :: "string SendMessageOptions" where
  "optionsRejecting = optionsDefault\<lparr>structured :=
     Some \<lparr>parse = (\<lambda>raw. Inr raw), validate = Some (\<lambda>v. Inr False)\<rparr>\<rparr>"

section \<open>Properties of the classifier\<close>

lemma includes_iff_contains: "js_includes s t \<longleftrightarrow> contains s t"
proof (induction s)
  case Nil
  show ?case by (auto simp: contains_def)
next
  case (Cons x xs)
  show ?case
  proof
    assume "js_includes (x # xs) t"
    then consider "prefix t (x # xs)" | "js_includes xs t" by auto
    then show "contains (x # xs) t"
    proof cases
      case 1
      then obtain zs where "x # xs = t @ zs" by (auto simp: prefix_def)
      then have "x # xs = [] @ t @ zs" by simp
      then show ?thesis unfolding contains_def by blast
    next
      case 2
      with Cons.IH obtain b a where "xs = b @ t @ a" by (auto simp: contains_def)
      then have "x # xs = (x # b) @ t @ a" by simp
      then show ?thesis unfolding contains_def by blast
    qed
  next
    assume "contains (x # xs) t"
    then obtain b a where eq: "x # xs = b @ t @ a" by (auto simp: contains_def)
    show "js_includes (x # xs) t"
    proof (cases b)
      case Nil
      with eq have "prefix t (x # xs)" by (simp add: prefix_def)
      then show ?thesis by simp
    next
      case (Cons y b')
      with eq have "xs = b' @ t @ a" by simp
      then have "contains xs t" unfolding contains_def by blast
      with Cons.IH show ?thesis by simp
    qed
  qed
qed

lemma showNat_20000: "showNat 20000 = ''20000''"
  by (simp add: showNat.simps)

lemma errorClass_cases: "k \<in> {Timeout, Auth, RateLimit, Network, Provider, Unknown}"
  by (cases k) simp_all

lemma classifyError_classified: "\<exists>k. classification (classifyError provider error) = Some k"
  by (cases error) (simp_all add: classifyError_def Let_def)

lemma classifyError_passthrough:
  "classification error \<noteq> None \<Longrightarrow> classifyError provider error = error"
  by (cases error) (simp_all add: classifyError_def)

lemma contains_trans: "contains s t \<Longrightarrow> contains t u \<Longrightarrow> contains s u"
  unfolding contains_def
  by (metis append.assoc)

lemma missing_is_auth:
  assumes "contains (toLowerCase m) ''missing''"
  shows "classifyError provider (JsError m None) = JsError m (Some Auth)"
  using assms by (simp add: classifyError_def kindOfMessage_def includes_iff_contains Let_def)

lemma lower_provider_name: "toLowerCase (providerName p) = providerName p"
proof -
  have "toLowerCase ''gemini'' = ''gemini''" "toLowerCase ''openai'' = ''openai''"
    "toLowerCase ''anthropic'' = ''anthropic''"
    by code_simp+
  then show ?thesis by (cases p) simp_all
qed

section \<open>The candidate list\<close>

text \<open>
  Claim C1. For every selected provider \<open>p\<close> (the provider of the options or the stored
  default), the candidate list built by sendMessage starts with \<open>p\<close>, holds no provider
  twice, and continues with the other providers in the order gemini, openai, anthropic.
\<close>

theorem candidates_selected_first:
  "hd (candidates p) = p \<and> distinct (candidates p)
   \<and> tl (candidates p) = filter (\<lambda>q. q \<noteq> p) PROVIDER_ORDER
   \<and> PROVIDER_ORDER = [Gemini, OpenAI, Anthropic]"
  by (cases p) (simp_all add: candidates_def PROVIDER_ORDER_def)

section \<open>The classifier\<close>

text \<open>
  Claim C6. For a failure that carries a message and no classification yet, classifyError
  keeps the message and assigns the first kind of the priority table (auth, timeout,
  rate_limit, network, provider) one of whose substrings occurs in the lower-cased message,
  and \<open>unknown\<close> when none does.
\<close>

theorem classify_first_matching_kind:
  "classifyError provider (JsError m None) = JsError m (Some (firstMatchingKind (toLowerCase m)))"
  by (simp add: classifyError_def kindOfMessage_def firstMatchingKind_def kindTable_def includes_iff_contains Let_def)

theorem classify_first_matching_kind_witness:
  "classifyError OpenAI (JsError ''Fetch failed: HTTP 429 (rate limited)'' None)
     = JsError ''Fetch failed: HTTP 429 (rate limited)'' (Some RateLimit)
   \<and> firstMatchingKind (toLowerCase ''Fetch failed: HTTP 429 (rate limited)'') = RateLimit"
proof -
  have a: "classifyError OpenAI (JsError ''Fetch failed: HTTP 429 (rate limited)'' None)
     = JsError ''Fetch failed: HTTP 429 (rate limited)'' (Some RateLimit)"
    by code_simp
  with classify_first_matching_kind [of OpenAI "''Fetch failed: HTTP 429 (rate limited)''"]
  show ?thesis by simp
qed

lemma classifyError_unknown_passthrough:
  "classificationProperty error \<noteq> None \<Longrightarrow> classifyError_unknown provider error = Inr error"
  by (cases error) (simp_all add: classifyError_unknown_def)

lemma classifyError_unknown_sealed:
  "sealedUnclassified error \<Longrightarrow> classifyError_unknown provider error = Inl notExtensibleError"
  by (cases error rule: sealedUnclassified.cases) (simp_all add: classifyError_unknown_def Let_def)

lemma classifyError_unknown_annotates:
  assumes "classificationProperty error = None" "\<not> sealedUnclassified error"
  shows "\<exists>r k. classifyError_unknown provider error = Inr r
               \<and> classificationProperty r = Some (Kind k)"
  using assms
  by (cases error rule: sealedUnclassified.cases) (simp_all add: classifyError_unknown_def Let_def)

lemma classifyError_unknown_returned:
  "classifyError_unknown provider error = Inr r \<Longrightarrow> classificationProperty r \<noteq> None"
  by (cases error rule: sealedUnclassified.cases)
     (auto simp: classifyError_unknown_def Let_def split: if_splits)

lemma classifyError_unknown_of_thrown:
  "classifyError_unknown provider (unknownOf e) = Inr (unknownOf (classifyError provider e))"
  by (cases e) (auto simp: classifyError_unknown_def classifyError_def Let_def)

text \<open>
  Claim C7, as stated, gives every failure value a kind among the six. The first line of
  classifyError returns any object that has a \<open>classification\<close> property, whatever the
  property holds: an object whose property is not one of the six kinds comes back as it
  is, with that kind. And an \<open>Error\<close> without the property that is not extensible is not
  given a kind at all: the assignment throws.
\<close>

theorem classify_foreign_kind_counterexample:
  "classifyError_unknown Gemini (OtherObject (Some NotAKind)) = Inr (OtherObject (Some NotAKind))
   \<and> classificationProperty (OtherObject (Some NotAKind))
       \<notin> (\<lambda>k. Some (Kind k)) ` {Timeout, Auth, RateLimit, Network, Provider, Unknown}
   \<and> classifyError_unknown Gemini (ErrorInstance False ''boom'' None) = Inl notExtensibleError"
  by (auto simp: classifyError_unknown_def Let_def)

text \<open>
  Claim C7, amended. For every failure value that has no \<open>classification\<close> property yet
  and is not an \<open>Error\<close> closed to new properties, classifyError returns an error whose
  kind is one of the six values. A value that has the property is returned unchanged,
  whatever the property holds, and an \<open>Error\<close> without the property that is not extensible
  makes classifyError throw. classifyError is idempotent: applied, for any provider, to a
  value that it has returned, it returns that value unchanged, kind and message included.
  On the values thrown inside sendMessage, which are well typed and extensible, it is the
  function \<open>classifyError\<close> of the model of sendMessage, which is idempotent as well.
\<close>

theorem classify_unknown_idempotent:
  "(classificationProperty error = None \<and> \<not> sealedUnclassified error \<longrightarrow>
      (\<exists>r. classifyError_unknown provider error = Inr r
           \<and> classificationProperty r
               \<in> (\<lambda>k. Some (Kind k)) ` {Timeout, Auth, RateLimit, Network, Provider, Unknown}))
   \<and> (classificationProperty error \<noteq> None \<longrightarrow> classifyError_unknown provider error = Inr error)
   \<and> (sealedUnclassified error \<longrightarrow> classifyError_unknown provider error = Inl notExtensibleError)
   \<and> (\<forall>r. classifyError_unknown provider error = Inr r \<longrightarrow>
          classifyError_unknown provider' r = Inr r
          \<and> (\<forall>r'. classifyError_unknown provider' r = Inr r' \<longrightarrow>
                classificationProperty r' = classificationProperty r
                \<and> messageProperty r' = messageProperty r))
   \<and> classifyError_unknown provider (unknownOf e) = Inr (unknownOf (classifyError provider e))
   \<and> classifyError provider' (classifyError provider e) = classifyError provider e"
proof -
  have six: "\<exists>r. classifyError_unknown provider error = Inr r
           \<and> classificationProperty r
               \<in> (\<lambda>k. Some (Kind k)) ` {Timeout, Auth, RateLimit, Network, Provider, Unknown}"
    if "classificationProperty error = None" "\<not> sealedUnclassified error"
  proof -
    from classifyError_unknown_annotates [OF that, of provider]
    obtain r k where r: "classifyError_unknown provider error = Inr r"
      and k: "classificationProperty r = Some (Kind k)"
      by blast
    have "classificationProperty r
            \<in> (\<lambda>k. Some (Kind k)) ` {Timeout, Auth, RateLimit, Network, Provider, Unknown}"
      unfolding k using errorClass_cases [of k] by (rule imageI)
    with r show ?thesis by blast
  qed
  have idem: "classifyError_unknown provider' r = Inr r"
    if "classifyError_unknown provider error = Inr r" for r
    using classifyError_unknown_returned [OF that] by (rule classifyError_unknown_passthrough)
  obtain k where k: "classification (classifyError provider e) = Some k"
    using classifyError_classified by blast
  have again: "classifyError provider' (classifyError provider e) = classifyError provider e"
    using k by (intro classifyError_passthrough) simp
  from six idem again show ?thesis
    by (auto simp: classifyError_unknown_passthrough classifyError_unknown_sealed
          classifyError_unknown_of_thrown)
qed

theorem classify_unknown_idempotent_witness:
  "classificationProperty (ErrorInstance True ''Failed to fetch'' None) = None
   \<and> \<not> sealedUnclassified (ErrorInstance True ''Failed to fetch'' None)
   \<and> classifyError_unknown Gemini (ErrorInstance True ''Failed to fetch'' None)
       = Inr (ErrorInstance True ''Failed to fetch'' (Some (Kind Network)))
   \<and> classifyError_unknown OpenAI (ErrorInstance True ''Failed to fetch'' (Some (Kind Network)))
       = Inr (ErrorInstance True ''Failed to fetch'' (Some (Kind Network)))"
proof -
  have first: "classifyError_unknown Gemini (ErrorInstance True ''Failed to fetch'' None)
                 = Inr (ErrorInstance True ''Failed to fetch'' (Some (Kind Network)))"
    by code_simp
  note inst = classify_unknown_idempotent [of "ErrorInstance True ''Failed to fetch'' None" Gemini
      OpenAI JsPrimitive]
  from inst first
  have "classifyError_unknown OpenAI (ErrorInstance True ''Failed to fetch'' (Some (Kind Network)))
          = Inr (ErrorInstance True ''Failed to fetch'' (Some (Kind Network)))"
    by simp
  with first show ?thesis by simp
qed

text \<open>
  Claim C8, as stated, has the structured-validation failure classified as \<open>provider\<close>.
  Its message "Structured output validation failed" contains none of the substrings of the
  table, so the classifier does not assign \<open>provider\<close> to it.
\<close>

theorem structured_validation_counterexample:
  "classification (classifyError Gemini structuredValidationError) \<noteq> Some Provider"
  by code_simp

text \<open>
  Claim C8, amended. The credential accessor fails for a provider without a usable key with
  the message "<provider> API Key missing", and that failure classifies as \<open>auth\<close>; the
  no-providers-available failure classifies as \<open>provider\<close>; the structured-validation
  failure classifies as \<open>unknown\<close>; each message is kept.
\<close>

theorem domain_errors_classified:
  "(\<not> truthy (providerKeys secretPayload q) \<longrightarrow>
      withProviderApiKey secretPayload q fn = Settles 0 (Inl (missingKeyError q)))
   \<and> classifyError p (missingKeyError q) = JsError (providerName q @ '' API Key missing'') (Some Auth)
   \<and> classifyError p noProvidersError = JsError ''No providers available'' (Some Provider)
   \<and> classifyError p structuredValidationError
       = JsError ''Structured output validation failed'' (Some Unknown)"
proof -
  have "toLowerCase '' API Key missing'' = '' api key missing''"
    by code_simp
  then have "toLowerCase (providerName q @ '' API Key missing'')
               = (providerName q @ '' api key '') @ ''missing'' @ []"
    using lower_provider_name [of q] by (simp add: toLowerCase_def)
  then have "contains (toLowerCase (providerName q @ '' API Key missing'')) ''missing''"
    unfolding contains_def by blast
  then have "classifyError p (missingKeyError q)
               = JsError (providerName q @ '' API Key missing'') (Some Auth)"
    unfolding missingKeyError_def by (rule missing_is_auth)
  moreover have "classifyError p noProvidersError
                   = JsError ''No providers available'' (Some Provider)"
    by code_simp
  moreover have "classifyError p structuredValidationError
                   = JsError ''Structured output validation failed'' (Some Unknown)"
    by code_simp
  moreover have "\<not> truthy (providerKeys secretPayload q) \<longrightarrow>
      withProviderApiKey secretPayload q fn = Settles 0 (Inl (missingKeyError q))"
    by (simp add: withProviderApiKey_def truthy_def split: option.splits)
  ultimately show ?thesis by simp
qed

theorem domain_errors_classified_witness:
  "\<not> truthy (providerKeys (storedSecrets keysBC) Gemini)
   \<and> withProviderApiKey (storedSecrets keysBC) Gemini (\<lambda>key. Settles 3 (Inr key))
       = Settles 0 (Inl (JsError ''gemini API Key missing'' None))
   \<and> classifyError Gemini (JsError ''gemini API Key missing'' None)
       = JsError ''gemini API Key missing'' (Some Auth)"
proof -
  have none: "\<not> truthy (providerKeys (storedSecrets keysBC) Gemini)"
    by (simp add: keysBC_def emptyWorld_def truthy_def)
  note inst = domain_errors_classified [of "storedSecrets keysBC" Gemini "\<lambda>key. Settles 3 (Inr key)"
      Gemini]
  from inst none show ?thesis by (simp add: missingKeyError_def)
qed

section \<open>The timeout guard\<close>

lemma timerDelay_in_range: "1 \<le> d \<Longrightarrow> d \<le> 2147483647 \<Longrightarrow> timerDelay d = d"
  by (simp add: timerDelay_def TIMEOUT_MAX_def)

lemma timerDelay_out_of_range: "d = 0 \<or> 2147483647 < d \<Longrightarrow> timerDelay d = 1"
  by (auto simp: timerDelay_def TIMEOUT_MAX_def)

lemma timerDelay_20000: "timerDelay 20000 = 20000"
  by (simp add: timerDelay_def TIMEOUT_MAX_def)

lemma withTimeout_in_time:
  "t \<le> timerDelay timeoutMs \<Longrightarrow> fst (withTimeout (Settles t r) timeoutMs provider w) = r"
  by (simp add: withTimeout_def setTimeout_def)

lemma withTimeout_late:
  "timerDelay timeoutMs < t \<Longrightarrow>
     fst (withTimeout (Settles t r) timeoutMs provider w) = Inl (timeoutError provider timeoutMs)"
  by (simp add: withTimeout_def setTimeout_def)

lemma withTimeout_never:
  "fst (withTimeout Never timeoutMs provider w) = Inl (timeoutError provider timeoutMs)"
  by (simp add: withTimeout_def setTimeout_def)

lemma withTimeout_timers:
  "timers (snd (withTimeout promise timeoutMs provider w)) = filter (\<lambda>t. t \<noteq> nextTimerId w) (timers w)"
  by (cases promise) (simp_all add: withTimeout_def setTimeout_def clearTimeout_def timerFired_def)

lemma digit_cases:
  assumes "d < (10::nat)"
  shows "d = 0 \<or> d = 1 \<or> d = 2 \<or> d = 3 \<or> d = 4 \<or> d = 5 \<or> d = 6 \<or> d = 7 \<or> d = 8 \<or> d = 9"
  using assms by arith

lemma digitValue_digit: "d < 10 \<Longrightarrow> digitValue (''0123456789'' ! d) = d"
  using digit_cases [of d] by (auto simp: digitValue_def)

lemma digit_is_digit: "d < 10 \<Longrightarrow> ''0123456789'' ! d \<in> set ''0123456789''"
  using digit_cases [of d] by auto

lemma readNat_snoc: "readNat (ds @ [c]) = 10 * readNat ds + digitValue c"
  by (simp add: readNat_def)

lemma readNat_showNat: "readNat (showNat n) = n"
proof (induction n rule: showNat.induct)
  case (1 n)
  show ?case
  proof (cases "n < 10")
    case True
    then show ?thesis
      by (simp add: showNat.simps [of n] readNat_def digitValue_digit)
  next
    case False
    with 1 have "readNat (showNat (n div 10)) = n div 10"
      by simp
    with False show ?thesis
      by (simp add: showNat.simps [of n] readNat_snoc digitValue_digit)
  qed
qed

lemma showNat_digits: "set (showNat n) \<subseteq> set ''0123456789''"
proof (induction n rule: showNat.induct)
  case (1 n)
  show ?case
  proof (cases "n < 10")
    case True
    then show ?thesis
      using digit_is_digit [of n] by (simp add: showNat.simps [of n])
  next
    case False
    with 1 have "set (showNat (n div 10)) \<subseteq> set ''0123456789''"
      by simp
    with False show ?thesis
      using digit_is_digit [of "n mod 10"] by (simp add: showNat.simps [of n])
  qed
qed

lemma showNat_2147483648: "showNat 2147483648 = ''2147483648''"
  by (simp add: showNat.simps)

text \<open>
  Claim C5, as stated, gives the operation its own result whenever it settles before the
  deadline, for every timeout duration. The timer of withTimeout is set with the duration
  unchecked, and a timer asked for more than 2^31 - 1 milliseconds fires after one
  millisecond: with a duration of 2147483648 ms, an operation that is fulfilled after 100 ms,
  long before the deadline, loses the race and withTimeout fails with the timeout error.
\<close>

theorem withTimeout_long_duration_counterexample:
  "(100::nat) < 2147483648
   \<and> fst (withTimeout (Settles 100 (Inr ''done'')) 2147483648 OpenAI emptyWorld)
       = Inl (JsError ''openai request timed out after 2147483648ms'' (Some Timeout))"
proof -
  have "timerDelay 2147483648 = 1"
    by (simp add: timerDelay_def TIMEOUT_MAX_def)
  then have "fst (withTimeout (Settles 100 (Inr ''done'')) 2147483648 OpenAI emptyWorld)
               = Inl (timeoutError OpenAI 2147483648)"
    by (simp add: withTimeout_late)
  then show ?thesis
    by (simp add: timeoutError_def showNat_2147483648)
qed

text \<open>
  Claim C5, amended. For every operation and provider, and for every timeout duration in
  the range of a timer delay, 1 to 2147483647 ms: an operation that settles before the
  deadline gives withTimeout its own result, fulfilled or rejected, and when the deadline
  comes first (the operation settles later or never) withTimeout fails with an error
  classified \<open>timeout\<close>. For every duration, in the range or not: the timer fires after
  \<open>timerDelay\<close> of the duration, which is the duration itself in the range and one
  millisecond outside it; an operation that has settled by then, also in the very
  millisecond the timer is due, wins the race and any other loses it; the message of the
  timeout error is the provider's name, " request timed out after ", the requested duration
  and "ms", the duration being written in decimal digits that read back as the same number;
  and in every case the timer that the call has set is no longer scheduled when it returns,
  the other timers being left as they were.
\<close>

theorem withTimeout_race:
  "(1 \<le> timeoutMs \<and> timeoutMs \<le> 2147483647 \<and> t < timeoutMs \<longrightarrow>
      fst (withTimeout (Settles t r) timeoutMs provider w) = (r :: thrown + 'a))
   \<and> (1 \<le> timeoutMs \<and> timeoutMs \<le> 2147483647 \<and> timeoutMs < t \<longrightarrow>
        fst (withTimeout (Settles t r) timeoutMs provider w) = Inl (timeoutError provider timeoutMs))
   \<and> fst (withTimeout Never timeoutMs provider w) = (Inl (timeoutError provider timeoutMs) :: thrown + 'a)
   \<and> (1 \<le> timeoutMs \<and> timeoutMs \<le> 2147483647 \<longrightarrow> timerDelay timeoutMs = timeoutMs)
   \<and> (timeoutMs = 0 \<or> 2147483647 < timeoutMs \<longrightarrow> timerDelay timeoutMs = 1)
   \<and> (t \<le> timerDelay timeoutMs \<longrightarrow> fst (withTimeout (Settles t r) timeoutMs provider w) = r)
   \<and> (timerDelay timeoutMs < t \<longrightarrow>
        fst (withTimeout (Settles t r) timeoutMs provider w) = Inl (timeoutError provider timeoutMs))
   \<and> classification (timeoutError provider timeoutMs) = Some Timeout
   \<and> message (timeoutError provider timeoutMs)
       = Some (providerName provider @ '' request timed out after '' @ showNat timeoutMs @ ''ms'')
   \<and> readNat (showNat timeoutMs) = timeoutMs
   \<and> set (showNat timeoutMs) \<subseteq> set ''0123456789''
   \<and> nextTimerId w \<notin> set (timers (snd (withTimeout (promise :: 'a promise) timeoutMs provider w)))
   \<and> (nextTimerId w \<notin> set (timers w) \<longrightarrow>
        timers (snd (withTimeout promise timeoutMs provider w)) = timers w)"
proof -
  have range: "1 \<le> timeoutMs \<and> timeoutMs \<le> 2147483647 \<longrightarrow> timerDelay timeoutMs = timeoutMs"
    by (simp add: timerDelay_in_range)
  have outside: "timeoutMs = 0 \<or> 2147483647 < timeoutMs \<longrightarrow> timerDelay timeoutMs = 1"
    using timerDelay_out_of_range [of timeoutMs] by blast
  have early: "t \<le> timerDelay timeoutMs \<longrightarrow> fst (withTimeout (Settles t r) timeoutMs provider w) = r"
    by (simp add: withTimeout_in_time)
  have late: "timerDelay timeoutMs < t \<longrightarrow>
        fst (withTimeout (Settles t r) timeoutMs provider w) = Inl (timeoutError provider timeoutMs)"
    by (simp add: withTimeout_late)
  have early_range: "1 \<le> timeoutMs \<and> timeoutMs \<le> 2147483647 \<and> t < timeoutMs \<longrightarrow>
      fst (withTimeout (Settles t r) timeoutMs provider w) = r"
    using range early by auto
  have late_range: "1 \<le> timeoutMs \<and> timeoutMs \<le> 2147483647 \<and> timeoutMs < t \<longrightarrow>
      fst (withTimeout (Settles t r) timeoutMs provider w) = Inl (timeoutError provider timeoutMs)"
    using range late by auto
  have never: "fst (withTimeout Never timeoutMs provider w)
                 = (Inl (timeoutError provider timeoutMs) :: thrown + 'a)"
    by (rule withTimeout_never)
  have kind: "classification (timeoutError provider timeoutMs) = Some Timeout"
    by (simp add: timeoutError_def)
  have msg: "message (timeoutError provider timeoutMs)
       = Some (providerName provider @ '' request timed out after '' @ showNat timeoutMs @ ''ms'')"
    by (simp add: timeoutError_def)
  have cleared: "nextTimerId w \<notin> set (timers (snd (withTimeout promise timeoutMs provider w)))"
    by (simp add: withTimeout_timers)
  have others: "nextTimerId w \<notin> set (timers w) \<longrightarrow>
        timers (snd (withTimeout promise timeoutMs provider w)) = timers w"
    by (auto simp: withTimeout_timers filter_id_conv)
  from early_range late_range never range outside early late kind msg
    readNat_showNat [of timeoutMs] showNat_digits [of timeoutMs] cleared others
  show ?thesis
    by blast
qed

theorem withTimeout_race_witness:
  "(1::nat) \<le> 20000 \<and> (20000::nat) \<le> 2147483647 \<and> (5::nat) < 20000 \<and> (20000::nat) < 30000
   \<and> nextTimerId emptyWorld \<notin> set (timers emptyWorld)
   \<and> fst (withTimeout (Settles 5 (Inr ''done'')) 20000 OpenAI emptyWorld) = Inr ''done''
   \<and> fst (withTimeout (Settles 30000 (Inr ''done'')) 20000 OpenAI emptyWorld)
       = Inl (JsError ''openai request timed out after 20000ms'' (Some Timeout))
   \<and> timers (snd (withTimeout (Settles 30000 (Inr ''done'')) 20000 OpenAI emptyWorld)) = []
   \<and> timerDelay 20000 = 20000
   \<and> readNat ''20000'' = 20000"
proof -
  have e: "timers emptyWorld = []"
    by (simp add: emptyWorld_def)
  note early_inst = withTimeout_race [where t = 5 and timeoutMs = 20000 and r = "Inr ''done''"
        and provider = OpenAI and w = emptyWorld and promise = Never]
  have early: "fst (withTimeout (Settles 5 (Inr ''done'')) 20000 OpenAI emptyWorld) = Inr ''done''"
    using early_inst by simp
  have delay: "timerDelay 20000 = 20000"
    using early_inst by simp
  have digits: "readNat ''20000'' = 20000"
    using early_inst by (simp add: showNat_20000)
  have late: "fst (withTimeout (Settles 30000 (Inr ''done'')) 20000 OpenAI emptyWorld)
                = Inl (timeoutError OpenAI 20000)
              \<and> timers (snd (withTimeout (Settles 30000 (Inr ''done'')) 20000 OpenAI emptyWorld))
                = timers emptyWorld"
    using withTimeout_race [where t = 30000 and timeoutMs = 20000 and r = "Inr ''done''"
        and provider = OpenAI and w = emptyWorld and promise = "Settles 30000 (Inr ''done'')"]
    by (simp add: e)
  have "timeoutError OpenAI 20000 = JsError ''openai request timed out after 20000ms'' (Some Timeout)"
    by (simp add: timeoutError_def showNat_20000)
  with early late delay digits show ?thesis by (simp add: e)
qed

section \<open>The runtime event bus\<close>

lemma listenerCalls_append: "listenerCalls (xs @ ys) = listenerCalls xs @ listenerCalls ys"
  by (induction xs rule: listenerCalls.induct) simp_all

lemma deliver_calls:
  "listenerCalls (trace (snd (deliver ls event w)))
     = listenerCalls (trace w) @ map (\<lambda>l. (lid l, event)) (uptoFirstThrow ls event)"
proof (induction ls arbitrary: w)
  case Nil
  show ?case by (simp add: uptoFirstThrow_def)
next
  case (Cons l ls)
  show ?case
  proof (cases "react l event")
    case None
    then show ?thesis
      using Cons.IH [of "log (ListenerCalled (lid l) event) w"]
      by (simp add: uptoFirstThrow_def log_def listenerCalls_append)
  next
    case (Some t)
    then show ?thesis by (simp add: uptoFirstThrow_def log_def listenerCalls_append)
  qed
qed

lemma deliver_grows: "\<exists>d. trace (snd (deliver ls event w)) = trace w @ d"
proof (induction ls arbitrary: w)
  case Nil
  show ?case by simp
next
  case (Cons l ls)
  show ?case
  proof (cases "react l event")
    case None
    then show ?thesis
      using Cons.IH [of "log (ListenerCalled (lid l) event) w"] by (auto simp: log_def)
  next
    case (Some t)
    then show ?thesis by (simp add: log_def)
  qed
qed

lemma deliver_result:
  "fst (deliver ls event w)
     = (case find (\<lambda>l. react l event \<noteq> None) ls of
          None \<Rightarrow> Inr ()
        | Some l \<Rightarrow> (case react l event of Some t \<Rightarrow> Inl t | None \<Rightarrow> Inr ()))"
  by (induction ls arbitrary: w) (auto split: option.splits)

lemma uptoFirstThrow_all: "\<forall>l \<in> set ls. react l event = None \<Longrightarrow> uptoFirstThrow ls event = ls"
  by (induction ls) (simp_all add: uptoFirstThrow_def)

lemma busQuiet_listeners: "runtimeListeners busQuiet = [quietListener]"
  by (simp add: busQuiet_def subscribeRuntimeEvents_def AIService_new_def)

text \<open>
  Claim C9, as stated, has every subscribed listener receive the event even when a listener
  before it throws. With a throwing listener subscribed first and a second listener after
  it, only the first one is called.
\<close>

theorem emit_isolation_counterexample:
  "map fst (listenerCalls (newEffects emptyWorld
       (snd (emitRuntimeEvent busWithThrower (provider_health Gemini Healthy None) emptyWorld))))
     = [0]
   \<and> map lid (runtimeListeners busWithThrower) = [0, 1]"
  by (simp add: busWithThrower_def quietListener_def throwingListener_def subscribeRuntimeEvents_def
        AIService_new_def emitRuntimeEvent_def log_def newEffects_def emptyWorld_def)

text \<open>
  Claim C9, amended. emitRuntimeEvent calls the subscribed listeners synchronously in
  subscription order up to and including the first one that throws: the listeners after it
  are not called and its exception leaves emitRuntimeEvent. When no listener throws, every
  listener is called, in subscription order.
\<close>

theorem emit_stops_at_first_throw:
  "listenerCalls (newEffects w (snd (emitRuntimeEvent svc event w)))
     = map (\<lambda>l. (lid l, event)) (uptoFirstThrow (runtimeListeners svc) event)
   \<and> fst (emitRuntimeEvent svc event w)
     = (case find (\<lambda>l. react l event \<noteq> None) (runtimeListeners svc) of
          None \<Rightarrow> Inr ()
        | Some l \<Rightarrow> (case react l event of Some t \<Rightarrow> Inl t | None \<Rightarrow> Inr ()))
   \<and> ((\<forall>l \<in> set (runtimeListeners svc). react l event = None) \<longrightarrow>
        map fst (listenerCalls (newEffects w (snd (emitRuntimeEvent svc event w))))
          = map lid (runtimeListeners svc))"
proof -
  have tr: "trace (log (EmitRuntimeEvent event) w) = trace w @ [EmitRuntimeEvent event]"
    by (simp add: log_def)
  obtain d where d: "trace (snd (emitRuntimeEvent svc event w)) = trace w @ d"
    using deliver_grows [of "runtimeListeners svc" event "log (EmitRuntimeEvent event) w"]
    by (auto simp: emitRuntimeEvent_def tr)
  have "listenerCalls (trace (snd (emitRuntimeEvent svc event w)))
          = listenerCalls (trace w) @ map (\<lambda>l. (lid l, event)) (uptoFirstThrow (runtimeListeners svc) event)"
    by (simp add: emitRuntimeEvent_def deliver_calls tr listenerCalls_append)
  with d have calls: "listenerCalls (newEffects w (snd (emitRuntimeEvent svc event w)))
          = map (\<lambda>l. (lid l, event)) (uptoFirstThrow (runtimeListeners svc) event)"
    by (simp add: newEffects_def listenerCalls_append)
  have res: "fst (emitRuntimeEvent svc event w)
     = (case find (\<lambda>l. react l event \<noteq> None) (runtimeListeners svc) of
          None \<Rightarrow> Inr ()
        | Some l \<Rightarrow> (case react l event of Some t \<Rightarrow> Inl t | None \<Rightarrow> Inr ()))"
    by (simp add: emitRuntimeEvent_def deliver_result)
  have all: "(\<forall>l \<in> set (runtimeListeners svc). react l event = None) \<longrightarrow>
        map fst (listenerCalls (newEffects w (snd (emitRuntimeEvent svc event w))))
          = map lid (runtimeListeners svc)"
    unfolding calls by (simp add: uptoFirstThrow_all comp_def)
  from calls res all show ?thesis by blast
qed

theorem emit_stops_at_first_throw_witness:
  "(\<forall>l \<in> set (runtimeListeners busQuiet). react l (provider_health Gemini Healthy None) = None) = True
   \<and> map fst (listenerCalls (newEffects emptyWorld
         (snd (emitRuntimeEvent busQuiet (provider_health Gemini Healthy None) emptyWorld)))) = [1]
   \<and> fst (emitRuntimeEvent busQuiet (provider_health Gemini Healthy None) emptyWorld) = Inr ()"
proof -
  have q: "\<forall>l \<in> set (runtimeListeners busQuiet). react l (provider_health Gemini Healthy None) = None"
    by (simp add: busQuiet_listeners quietListener_def)
  have f: "find (\<lambda>l. react l (provider_health Gemini Healthy None) \<noteq> None) (runtimeListeners busQuiet) = None"
    by (simp add: busQuiet_listeners quietListener_def)
  have l: "map lid (runtimeListeners busQuiet) = [1]"
    by (simp add: busQuiet_listeners quietListener_def)
  note inst = emit_stops_at_first_throw [of emptyWorld busQuiet "provider_health Gemini Healthy None"]
  from inst q have m: "map fst (listenerCalls (newEffects emptyWorld
         (snd (emitRuntimeEvent busQuiet (provider_health Gemini Healthy None) emptyWorld))))
       = map lid (runtimeListeners busQuiet)"
    by blast
  from inst f have r: "fst (emitRuntimeEvent busQuiet (provider_health Gemini Healthy None) emptyWorld) = Inr ()"
    by simp
  from q m r l show ?thesis by simp
qed

section \<open>How the steps of sendMessage extend the trace\<close>

lemma emitted_append: "emitted (xs @ ys) = emitted xs @ emitted ys"
  by (induction xs rule: emitted.induct) simp_all

lemma attempted_append: "attempted (xs @ ys) = attempted xs @ attempted ys"
  by (induction xs rule: attempted.induct) simp_all

lemma switchCalls_append: "switchCalls (xs @ ys) = switchCalls xs @ switchCalls ys"
  by (induction xs rule: switchCalls.induct) simp_all

lemma healthCalls_append: "healthCalls (xs @ ys) = healthCalls xs @ healthCalls ys"
  by (induction xs rule: healthCalls.induct) simp_all

lemma appends_refl: "appends P w w"
  by (simp add: appends_def)

lemma appends_same_trace: "trace w' = trace w \<Longrightarrow> appends P w w'"
  by (simp add: appends_def)

lemma appends_trans: "appends P w w1 \<Longrightarrow> appends P w1 w2 \<Longrightarrow> appends P w w2"
  unfolding appends_def by auto

lemma appends_mono: "appends P w w' \<Longrightarrow> (\<And>e. P e \<Longrightarrow> Q e) \<Longrightarrow> appends Q w w'"
  unfolding appends_def by (auto simp: list_all_iff)

lemma appends_log: "P e \<Longrightarrow> appends P w (log e w)"
  by (simp add: appends_def log_def)

lemma appends_newEffects:
  "appends P w w' \<Longrightarrow> trace w' = trace w @ newEffects w w' \<and> list_all P (newEffects w w')"
  unfolding appends_def newEffects_def by auto

lemma callOptional_appends: "P eff \<Longrightarrow> appends P w (snd (callOptional cb ev eff w))"
  by (auto simp: callOptional_def appends_refl appends_log split: option.splits)

lemma deliver_appends:
  "(\<And>n. P (ListenerCalled n event)) \<Longrightarrow> appends P w (snd (deliver ls event w))"
proof (induction ls arbitrary: w)
  case Nil
  show ?case by (simp add: appends_refl)
next
  case (Cons l ls)
  have step: "appends P w (log (ListenerCalled (lid l) event) w)"
    using Cons.prems by (rule appends_log)
  show ?case
  proof (cases "react l event")
    case None
    with appends_trans [OF step Cons.IH [OF Cons.prems]] show ?thesis by simp
  next
    case (Some t)
    with step show ?thesis by simp
  qed
qed

lemma emit_appends:
  "P (EmitRuntimeEvent event) \<Longrightarrow> (\<And>n. P (ListenerCalled n event))
     \<Longrightarrow> appends P w (snd (emitRuntimeEvent svc event w))"
  unfolding emitRuntimeEvent_def
  by (rule appends_trans [OF appends_log deliver_appends])

lemma withTimeout_trace: "trace (snd (withTimeout promise timeoutMs provider w)) = trace w"
  by (cases promise)
     (simp_all add: withTimeout_def setTimeout_def clearTimeout_def timerFired_def)

lemma withTimeout_health: "providerHealth (snd (withTimeout promise timeoutMs provider w)) = providerHealth w"
  by (cases promise)
     (simp_all add: withTimeout_def setTimeout_def clearTimeout_def timerFired_def)

lemma andThen_appends:
  assumes "appends P w (snd r)" and "\<And>a w1. appends P w1 (snd (k a w1))"
  shows "appends P w (snd (andThen r k))"
proof (cases r)
  case (Pair x w1)
  show ?thesis
  proof (cases x)
    case (Inl t)
    with Pair assms(1) show ?thesis by (simp add: andThen_def)
  next
    case (Inr a)
    with Pair assms(1) assms(2) [of w1 a] show ?thesis
      by (auto simp: andThen_def intro: appends_trans)
  qed
qed

lemma announceSwitch_appends:
  "appends isSwitchEffect w (snd (announceSwitch svc options previous provider lastError w))"
  unfolding announceSwitch_def Let_def
  by (intro andThen_appends appends_trans [OF appends_log callOptional_appends]
        callOptional_appends emit_appends) simp_all

lemma handleFailure_appends:
  "appends isHealthEffect w (snd (handleFailure svc options provider error w))"
  unfolding handleFailure_def Let_def
  by (intro andThen_appends appends_trans [OF appends_same_trace callOptional_appends]
        emit_appends) (simp_all add: saveProviderHealth_def appends_refl)

lemma attempt_appends:
  "appends isHealthEffect (log (AdapterComplete provider mergedMessages) w)
     (snd (attempt svc options complete mergedMessages timeoutMs provider i w))"
  unfolding attempt_def
  by (intro andThen_appends appends_trans [OF appends_same_trace callOptional_appends]
        emit_appends appends_same_trace)
     (simp_all add: saveProviderHealth_def appends_refl withTimeout_trace)

lemma health_effects_projections:
  "list_all isHealthEffect d \<Longrightarrow>
     attempted d = [] \<and> switchCalls d = [] \<and> filter isSwitch (emitted d) = []"
proof (induction d)
  case Nil
  show ?case by simp
next
  case (Cons e d)
  then show ?case by (cases e rule: isHealthEffect.cases) simp_all
qed

lemma switch_effects_projections:
  "list_all isSwitchEffect d \<Longrightarrow>
     attempted d = [] \<and> healthCalls d = [] \<and> filter isHealth (emitted d) = []"
proof (induction d)
  case Nil
  show ?case by simp
next
  case (Cons e d)
  then show ?case by (cases e rule: isSwitchEffect.cases) simp_all
qed

section \<open>Quiet observers\<close>

lemma listener_block:
  "emitted (map (\<lambda>l. ListenerCalled (lid l) event) ls) = []"
  "attempted (map (\<lambda>l. ListenerCalled (lid l) event) ls) = []"
  "switchCalls (map (\<lambda>l. ListenerCalled (lid l) event) ls) = []"
  "healthCalls (map (\<lambda>l. ListenerCalled (lid l) event) ls) = []"
  by (induction ls) simp_all

lemma deliver_quiet:
  "\<forall>l \<in> set ls. react l event = None \<Longrightarrow>
     deliver ls event w = (Inr (), w\<lparr>trace := trace w @ map (\<lambda>l. ListenerCalled (lid l) event) ls\<rparr>)"
  by (induction ls arbitrary: w) (simp_all add: log_def)

lemma emit_quiet:
  assumes "quiet svc options"
  shows "emitRuntimeEvent svc event w
           = (Inr (), w\<lparr>trace := trace w @ EmitRuntimeEvent event
                                 # map (\<lambda>l. ListenerCalled (lid l) event) (runtimeListeners svc)\<rparr>)"
proof -
  from assms have "\<forall>l \<in> set (runtimeListeners svc). react l event = None"
    by (simp add: quiet_def)
  then show ?thesis
    by (simp add: emitRuntimeEvent_def deliver_quiet log_def)
qed

lemma callOptional_quiet:
  assumes "\<And>f. cb = Some f \<Longrightarrow> f ev = None"
  shows "callOptional cb ev eff w = (Inr (), case cb of None \<Rightarrow> w | Some f \<Rightarrow> log eff w)"
  using assms by (cases cb) (simp_all add: callOptional_def)

lemma health_callback_quiet:
  "quiet svc options \<Longrightarrow>
     callOptional (onProviderHealth options) ev eff w
       = (Inr (), case onProviderHealth options of None \<Rightarrow> w | Some f \<Rightarrow> log eff w)"
  by (rule callOptional_quiet) (simp add: quiet_def)

lemma switch_callback_quiet:
  "quiet svc options \<Longrightarrow>
     callOptional (onProviderSwitch options) ev eff w
       = (Inr (), case onProviderSwitch options of None \<Rightarrow> w | Some f \<Rightarrow> log eff w)"
  by (rule callOptional_quiet) (simp add: quiet_def)

lemma event_callback_quiet:
  "quiet svc options \<Longrightarrow>
     callOptional (onProviderEvent options) ev eff w
       = (Inr (), case onProviderEvent options of None \<Rightarrow> w | Some f \<Rightarrow> log eff w)"
  by (rule callOptional_quiet) (simp add: quiet_def)

lemma handleFailure_quiet:
  assumes "quiet svc options"
  shows "\<exists>w'. handleFailure svc options provider error w = (Inr (classifyError provider error), w')
           \<and> emitted (trace w') = emitted (trace w)
                @ [provider_health provider (failureHealth (classifyError provider error))
                     (message (classifyError provider error))]
           \<and> attempted (trace w') = attempted (trace w)
           \<and> switchCalls (trace w') = switchCalls (trace w)
           \<and> healthCalls (trace w') = healthCalls (trace w)
                @ (case onProviderHealth options of
                     None \<Rightarrow> []
                   | Some f \<Rightarrow> [HealthOf provider (failureHealth (classifyError provider error))
                                  (message (classifyError provider error))])
           \<and> providerHealth w' = (providerHealth w)(provider \<mapsto> failureHealth (classifyError provider error))"
  by (simp add: handleFailure_def Let_def andThen_def health_callback_quiet [OF assms]
        emit_quiet [OF assms] saveProviderHealth_def log_def emitted_append attempted_append
        healthCalls_append switchCalls_append listener_block split: option.split)

lemma announceSwitch_quiet:
  assumes "quiet svc options"
  shows "\<exists>w'. announceSwitch svc options previous provider lastError w = (Inr (), w')
           \<and> emitted (trace w') = emitted (trace w)
                @ [provider_switch previous provider (switchReason lastError)]
           \<and> attempted (trace w') = attempted (trace w)
           \<and> switchCalls (trace w') = switchCalls (trace w)
                @ (case onProviderSwitch options of
                     None \<Rightarrow> []
                   | Some f \<Rightarrow> [Switch previous provider (switchReason lastError)])
           \<and> healthCalls (trace w') = healthCalls (trace w)
           \<and> providerHealth w' = providerHealth w"
  by (simp add: announceSwitch_def Let_def andThen_def switch_callback_quiet [OF assms]
        event_callback_quiet [OF assms] emit_quiet [OF assms] log_def emitted_append
        attempted_append switchCalls_append healthCalls_append listener_block split: option.split)

lemma withTimeout_fst:
  "fst (withTimeout promise timeoutMs provider w)
     = (case promise of
          Settles t r \<Rightarrow>
            if t \<le> timerDelay timeoutMs then r else Inl (timeoutError provider timeoutMs)
        | Never \<Rightarrow> Inl (timeoutError provider timeoutMs))"
  by (cases promise) (simp_all add: withTimeout_def setTimeout_def)

lemma withTimeout_succeeds:
  "requestSucceeds promise timeoutMs \<Longrightarrow> \<exists>v. fst (withTimeout promise timeoutMs provider w) = Inr v"
  by (auto simp: withTimeout_fst requestSucceeds_def split: promise.splits sum.splits)

lemma withTimeout_fails:
  "\<not> requestSucceeds promise timeoutMs \<Longrightarrow> \<exists>e. fst (withTimeout promise timeoutMs provider w) = Inl e"
  by (auto simp: withTimeout_fst requestSucceeds_def split: promise.splits sum.splits)

lemma attempt_request_failed:
  assumes "fst (withTimeout (complete mergedMessages) timeoutMs provider
                  (log (AdapterComplete provider mergedMessages) w)) = Inl e"
  shows "\<exists>w'. attempt svc options complete mergedMessages timeoutMs provider i w = (Inl e, w')
           \<and> trace w' = trace w @ [AdapterComplete provider mergedMessages]
           \<and> providerHealth w' = providerHealth w"
proof -
  obtain r w1 where eq: "withTimeout (complete mergedMessages) timeoutMs provider
                  (log (AdapterComplete provider mergedMessages) w) = (r, w1)"
    by (cases "withTimeout (complete mergedMessages) timeoutMs provider
                  (log (AdapterComplete provider mergedMessages) w)")
  with assms have r: "r = Inl e" by simp
  from eq have "trace w1 = trace w @ [AdapterComplete provider mergedMessages]"
    using withTimeout_trace [of "complete mergedMessages" timeoutMs provider
        "log (AdapterComplete provider mergedMessages) w"]
    by (simp add: log_def)
  moreover from eq have "providerHealth w1 = providerHealth w"
    using withTimeout_health [of "complete mergedMessages" timeoutMs provider
        "log (AdapterComplete provider mergedMessages) w"]
    by (simp add: log_def)
  ultimately show ?thesis
    by (simp add: attempt_def andThen_def eq r)
qed

lemma attempt_fst_failed:
  assumes "fst (withTimeout (complete mergedMessages) timeoutMs provider
                  (log (AdapterComplete provider mergedMessages) w)) = Inl e"
  shows "fst (attempt svc options complete mergedMessages timeoutMs provider i w) = Inl e"
  using attempt_request_failed [where complete = complete and mergedMessages = mergedMessages
      and svc = svc and options = options and i = i, OF assms]
  by auto

lemma attempt_request_succeeded:
  assumes "quiet svc options"
    and "fst (withTimeout (complete mergedMessages) timeoutMs provider
                  (log (AdapterComplete provider mergedMessages) w)) = Inr txt"
  shows "\<exists>w'. attempt svc options complete mergedMessages timeoutMs provider i w
                = (applyStructured (structured options)
                     \<lparr>res_text = txt, res_provider = provider, res_structured = None,
                        fallbackUsed = (i > 0)\<rparr>, w')
           \<and> emitted (trace w') = emitted (trace w) @ [provider_health provider Healthy None]
           \<and> attempted (trace w') = attempted (trace w) @ [provider]
           \<and> switchCalls (trace w') = switchCalls (trace w)
           \<and> healthCalls (trace w') = healthCalls (trace w)
                @ (case onProviderHealth options of
                     None \<Rightarrow> []
                   | Some f \<Rightarrow> [HealthOf provider Healthy None])
           \<and> providerHealth w' = (providerHealth w)(provider \<mapsto> Healthy)"
proof -
  let ?w0 = "w\<lparr>trace := trace w @ [AdapterComplete provider mergedMessages]\<rparr>"
  obtain r w1 where eq: "withTimeout (complete mergedMessages) timeoutMs provider ?w0 = (r, w1)"
    by (cases "withTimeout (complete mergedMessages) timeoutMs provider ?w0")
  with assms(2) have r: "r = Inr txt" by (simp add: log_def)
  from eq have tr: "trace w1 = trace w @ [AdapterComplete provider mergedMessages]"
    using withTimeout_trace [of "complete mergedMessages" timeoutMs provider ?w0] by simp
  from eq have hl: "providerHealth w1 = providerHealth w"
    using withTimeout_health [of "complete mergedMessages" timeoutMs provider ?w0] by simp
  show ?thesis
    by (simp add: attempt_def andThen_def log_def eq r tr hl health_callback_quiet [OF assms(1)]
          emit_quiet [OF assms(1)] saveProviderHealth_def emitted_append attempted_append
          switchCalls_append healthCalls_append listener_block split: option.split)
qed

section \<open>The loop\<close>

lemma adapters_new: "adapters (AIService_new complete) p = Some (complete p)"
  by (cases p) (simp_all add: AIService_new_def)

lemma candidates_eq: "candidates p = p # filter (\<lambda>q. q \<noteq> p) PROVIDER_ORDER"
  by (cases p) (simp_all add: candidates_def PROVIDER_ORDER_def)

lemma providersToTry_nonempty: "providersToTryOf options w \<noteq> []"
  by (simp add: providersToTryOf_def Let_def candidates_eq)

lemma sendLoop_done:
  "\<not> i < length ps \<Longrightarrow>
     sendLoop svc options fb tm ms ps i le w
       = (Inl (case le of Some e \<Rightarrow> e | None \<Rightarrow> noProvidersError), w)"
  by (subst sendLoop.simps) simp

lemma sendLoop_unfold:
  assumes "i < length ps" and "adapters svc (ps ! i) = Some c"
  shows "sendLoop svc options fb tm ms ps i le w =
     (case (if 0 < i then announceSwitch svc options (ps ! (i - 1)) (ps ! i) le w else (Inr (), w)) of
        (Inl t, w1) \<Rightarrow> (Inl t, w1)
      | (Inr u, w1) \<Rightarrow>
          (case attempt svc options c ms tm (ps ! i) i w1 of
             (Inr result, w2) \<Rightarrow> (Inr result, w2)
           | (Inl error, w2) \<Rightarrow>
               (case handleFailure svc options (ps ! i) error w2 of
                  (Inl t, w3) \<Rightarrow> (Inl t, w3)
                | (Inr le', w3) \<Rightarrow>
                    if fb \<and> i < length ps - 1
                    then sendLoop svc options fb tm ms ps (i + 1) (Some le') w3
                    else (Inl le', w3))))"
  using assms by (subst sendLoop.simps) simp

lemma switch_not_adapter: "isSwitchEffect e \<Longrightarrow> \<not> isAdapterCall e"
  by (cases e rule: isSwitchEffect.cases) simp_all

lemma health_not_adapter: "isHealthEffect e \<Longrightarrow> \<not> isAdapterCall e"
  by (cases e rule: isHealthEffect.cases) simp_all

lemma not_adapter_within: "\<not> isAdapterCall e \<Longrightarrow> \<forall>q m. e = AdapterComplete q m \<longrightarrow> q \<in> S"
  by (cases e) simp_all

lemma sendLoop_appends:
  assumes reg: "adapters svc = adapters (AIService_new complete)"
  shows "appends (\<lambda>e. \<forall>q m. e = AdapterComplete q m \<longrightarrow> q \<in> set ps) w
           (snd (sendLoop svc options fb tm ms ps i le w))"
    (is "appends ?P w _")
proof (induction "length ps - i" arbitrary: i le w)
  case 0
  then have "\<not> i < length ps" by simp
  then show ?case by (simp add: sendLoop_done appends_refl)
next
  case (Suc k)
  then have lt: "i < length ps" and k: "k = length ps - (i + 1)" by simp_all
  have ad: "adapters svc (ps ! i) = Some (complete (ps ! i))"
    by (simp add: reg adapters_new)
  note unfold = sendLoop_unfold [OF lt ad, of options fb tm ms le w]
  obtain x w1 where ann:
    "(if 0 < i then announceSwitch svc options (ps ! (i - 1)) (ps ! i) le w else (Inr (), w)) = (x, w1)"
    by (cases "if 0 < i then announceSwitch svc options (ps ! (i - 1)) (ps ! i) le w else (Inr (), w)")
  have "appends isSwitchEffect w w1"
    using ann announceSwitch_appends [of w svc options "ps ! (i - 1)" "ps ! i" le]
    by (cases "0 < i") (auto simp: appends_refl)
  then have a1: "appends ?P w w1"
    by (rule appends_mono) (auto dest: switch_not_adapter)
  show ?case
  proof (cases x)
    case (Inl t)
    with unfold ann a1 show ?thesis by simp
  next
    case xr: (Inr u)
    obtain y w2 where att: "attempt svc options (complete (ps ! i)) ms tm (ps ! i) i w1 = (y, w2)"
      by (cases "attempt svc options (complete (ps ! i)) ms tm (ps ! i) i w1")
    have "appends ?P w1 (log (AdapterComplete (ps ! i) ms) w1)"
      using lt by (intro appends_log) simp
    moreover have "appends ?P (log (AdapterComplete (ps ! i) ms) w1) w2"
      using attempt_appends [of "ps ! i" ms w1 svc options "complete (ps ! i)" tm i] att
      by (auto intro: appends_mono dest: health_not_adapter)
    ultimately have a2: "appends ?P w w2"
      using a1 by (blast intro: appends_trans)
    show ?thesis
    proof (cases y)
      case (Inr result)
      with unfold ann xr att a2 show ?thesis by simp
    next
      case yl: (Inl error)
      obtain z w3 where hf: "handleFailure svc options (ps ! i) error w2 = (z, w3)"
        by (cases "handleFailure svc options (ps ! i) error w2")
      have "appends ?P w2 w3"
        using handleFailure_appends [of w2 svc options "ps ! i" error] hf
        by (auto intro: appends_mono dest: health_not_adapter)
      with a2 have a3: "appends ?P w w3"
        by (rule appends_trans)
      show ?thesis
      proof (cases z)
        case (Inl t)
        with unfold ann xr att yl hf a3 show ?thesis by simp
      next
        case zr: (Inr le')
        show ?thesis
        proof (cases "fb \<and> i < length ps - 1")
          case True
          have "appends ?P w3 (snd (sendLoop svc options fb tm ms ps (i + 1) (Some le') w3))"
            using k by (rule Suc.hyps(1))
          with a3 have "appends ?P w (snd (sendLoop svc options fb tm ms ps (i + 1) (Some le') w3))"
            by (rule appends_trans)
          with unfold ann xr att yl hf zr True show ?thesis by simp
        next
          case False
          with unfold ann xr att yl hf zr a3 show ?thesis by auto
        qed
      qed
    qed
  qed
qed

lemma appends_first:
  assumes "appends P (log e w) w'"
  shows "\<exists>d. trace w' = trace w @ e # d \<and> list_all P d"
  using assms unfolding appends_def log_def by auto

lemma appends_after_first:
  assumes "trace w1 = trace w @ e # d" and "appends P w1 w'"
  shows "\<exists>d'. trace w' = trace w @ e # d'"
  using assms unfolding appends_def by auto

lemma single_attempt_effects:
  assumes "appends isHealthEffect (log (AdapterComplete p ms) w) w'"
  shows "attempted (newEffects w w') = [p] \<and> switchCalls (newEffects w w') = []
         \<and> filter isSwitch (emitted (newEffects w w')) = []"
proof -
  from appends_first [OF assms] obtain d
    where d: "trace w' = trace w @ AdapterComplete p ms # d" "list_all isHealthEffect d"
    by blast
  from d(1) have "newEffects w w' = AdapterComplete p ms # d"
    by (simp add: newEffects_def)
  with health_effects_projections [OF d(2)] show ?thesis by simp
qed

lemma applyStructured_fields:
  "applyStructured sp res = Inr r \<Longrightarrow>
     fallbackUsed r = fallbackUsed res \<and> res_provider r = res_provider res \<and> res_text r = res_text res"
  by (auto simp: applyStructured_def split: option.splits sum.splits if_splits)

lemma attempt_result_fields:
  "attempt svc options complete ms tm provider i w = (Inr r, w') \<Longrightarrow>
     fallbackUsed r = (0 < i) \<and> res_provider r = provider"
  by (auto simp: attempt_def andThen_def split: prod.splits sum.splits dest!: applyStructured_fields)

lemma attempted_within:
  "list_all (\<lambda>e. \<forall>q m. e = AdapterComplete q m \<longrightarrow> q \<in> S) d \<Longrightarrow> set (attempted d) \<subseteq> S"
proof (induction d)
  case Nil
  show ?case by simp
next
  case (Cons e d)
  then show ?case by (cases e) auto
qed

lemma configured_in_order:
  "filter (\<lambda>p. p \<in> set (getConfiguredProviders e s)) PROVIDER_ORDER = getConfiguredProviders e s"
  unfolding getConfiguredProviders_def PROVIDER_ORDER_def
  by (rule filter_cong) auto

lemma providersToTry_unconfigured_selected:
  assumes "selectedProviderOf options w \<notin> set (getConfiguredProviders (env_GEMINI_API_KEY w) (storedSecrets w))"
    and "getConfiguredProviders (env_GEMINI_API_KEY w) (storedSecrets w) \<noteq> []"
  shows "providersToTryOf options w = getConfiguredProviders (env_GEMINI_API_KEY w) (storedSecrets w)"
proof -
  let ?conf = "getConfiguredProviders (env_GEMINI_API_KEY w) (storedSecrets w)"
  let ?sel = "selectedProviderOf options w"
  have "filter (\<lambda>p. p \<in> set ?conf) (candidates ?sel)
          = filter (\<lambda>p. p \<in> set ?conf) PROVIDER_ORDER"
    using assms(1) by (auto simp: candidates_eq intro: filter_cong)
  then have "filter (\<lambda>p. p \<in> set ?conf) (candidates ?sel) = ?conf"
    by (simp add: configured_in_order)
  with assms(2) show ?thesis
    by (simp add: providersToTryOf_def Let_def)
qed

lemma sendLoop_first_attempt:
  assumes reg: "adapters svc = adapters (AIService_new complete)" and ne: "ps \<noteq> []"
  shows "\<exists>d. trace (snd (sendLoop svc options fb tm ms ps 0 le w))
               = trace w @ AdapterComplete (hd ps) ms # d"
proof -
  from ne have lt: "0 < length ps" and hd: "ps ! 0 = hd ps"
    by (simp_all add: hd_conv_nth)
  have ad: "adapters svc (ps ! 0) = Some (complete (ps ! 0))"
    by (simp add: reg adapters_new)
  note unfold = sendLoop_unfold [OF lt ad, of options fb tm ms le w]
  obtain y w2 where att: "attempt svc options (complete (ps ! 0)) ms tm (ps ! 0) 0 w = (y, w2)"
    by (cases "attempt svc options (complete (ps ! 0)) ms tm (ps ! 0) 0 w")
  from appends_first [OF attempt_appends [of "ps ! 0" ms w svc options "complete (ps ! 0)" tm 0]] att
  obtain d where d: "trace w2 = trace w @ AdapterComplete (ps ! 0) ms # d"
    by auto
  show ?thesis
  proof (cases y)
    case (Inr result)
    with unfold att d hd show ?thesis by simp
  next
    case yl: (Inl error)
    obtain z w3 where hf: "handleFailure svc options (ps ! 0) error w2 = (z, w3)"
      by (cases "handleFailure svc options (ps ! 0) error w2")
    from handleFailure_appends [of w2 svc options "ps ! 0" error] hf
    have "appends isHealthEffect w2 w3" by simp
    from appends_after_first [OF d this]
    obtain d3 where d3: "trace w3 = trace w @ AdapterComplete (ps ! 0) ms # d3" ..
    show ?thesis
    proof (cases z)
      case (Inl t)
      with unfold att yl hf d3 hd show ?thesis by simp
    next
      case zr: (Inr le')
      show ?thesis
      proof (cases "fb \<and> 0 < length ps - 1")
        case True
        from appends_after_first [OF d3 sendLoop_appends [OF reg, of ps w3 options fb tm ms "0 + 1" "Some le'"]]
        obtain d4 where "trace (snd (sendLoop svc options fb tm ms ps (0 + 1) (Some le') w3))
                          = trace w @ AdapterComplete (ps ! 0) ms # d4" ..
        with unfold att yl hf zr True hd show ?thesis by simp
      next
        case False
        with unfold att yl hf zr d3 hd show ?thesis by auto
      qed
    qed
  qed
qed

lemma keysBC_fields:
  "trace keysBC = []" "providerHealth keysBC = Map.empty"
  "storedPrefs keysBC = \<lparr>defaultProvider = Gemini, providerFallbackEnabled = True\<rparr>"
  "getConfiguredProviders (env_GEMINI_API_KEY keysBC) (storedSecrets keysBC) = [OpenAI, Anthropic]"
  by (simp_all add: keysBC_def emptyWorld_def getConfiguredProviders_def truthy_def)

lemma serviceA_fields:
  "adapters serviceA = adapters (AIService_new adaptersA)" "runtimeListeners serviceA = [quietListener]"
  by (simp_all add: serviceA_def subscribeRuntimeEvents_def AIService_new_def)

lemma quiet_serviceA: "quiet serviceA optionsA" "quiet serviceA optionsNoFallback"
  by (simp_all add: quiet_def serviceA_fields quietListener_def optionsA_def optionsNoFallback_def
        optionsDefault_def)

lemma tryA:
  "providersToTryOf optionsA keysBC = [OpenAI, Anthropic]"
  "providersToTryOf optionsNoFallback keysBC = [OpenAI, Anthropic]"
  "providersToTryOf optionsThrowing keysBC = [OpenAI, Anthropic]"
  by (simp_all add: providersToTryOf_def selectedProviderOf_def keysBC_fields candidates_eq
        PROVIDER_ORDER_def optionsA_def optionsNoFallback_def optionsThrowing_def optionsDefault_def)

lemma classify_401:
  "classifyError OpenAI (JsError ''401 unauthorized'' None) = JsError ''401 unauthorized'' (Some Auth)"
  by code_simp

lemma handleFailure_callback_throws:
  assumes "onProviderHealth options = Some f"
    and "f (HealthOf provider (failureHealth (classifyError provider error))
              (message (classifyError provider error))) = Some t"
  shows "fst (handleFailure svc options provider error w) = Inl t"
  using assms by (simp add: handleFailure_def Let_def andThen_def callOptional_def)

text \<open>
  Claim C3, as stated, has every such call reject with the classified error of the failed
  attempt. The \<open>catch\<close> block hands the failure to \<open>options.onProviderHealth\<close> and to the
  listeners of the bus before it reaches \<^verbatim>\<open>throw lastError\<close>, and nothing catches what
  they throw: with fallback disabled, a first attempt that fails with "401 unauthorized"
  (classified \<open>auth\<close>) and a health callback that throws, sendMessage rejects with the
  error of the callback.
\<close>

theorem no_fallback_throwing_observer_counterexample:
  "\<not> fallbackEnabledOf optionsThrowing keysBC
   \<and> providersToTryOf optionsThrowing keysBC = [OpenAI, Anthropic]
   \<and> fst (attempt serviceA optionsThrowing (adaptersA OpenAI) [] 20000 OpenAI 0 keysBC)
       = Inl (JsError ''401 unauthorized'' None)
   \<and> classifyError OpenAI (JsError ''401 unauthorized'' None)
       = JsError ''401 unauthorized'' (Some Auth)
   \<and> fst (sendMessage serviceA [] optionsThrowing keysBC) = Inl (JsError ''callback failed'' None)"
proof -
  let ?err = "JsError ''401 unauthorized'' None"
  have off: "\<not> fallbackEnabledOf optionsThrowing keysBC"
    by (simp add: fallbackEnabledOf_def optionsThrowing_def optionsNoFallback_def)
  have ms: "mergedMessagesOf optionsThrowing [] = []" "timeoutMsOf optionsThrowing = 20000"
    by (simp_all add: mergedMessagesOf_def timeoutMsOf_def DEFAULT_TIMEOUT_MS_def
          optionsThrowing_def optionsNoFallback_def optionsA_def optionsDefault_def)
  have cb: "onProviderHealth optionsThrowing = Some (\<lambda>event. Some (JsError ''callback failed'' None))"
    by (simp add: optionsThrowing_def)
  have att: "fst (attempt serviceA optionsThrowing (adaptersA OpenAI) [] 20000 OpenAI 0 keysBC)
               = Inl ?err"
    by (rule attempt_fst_failed) (simp add: withTimeout_fst timerDelay_20000 adaptersA_def)
  then obtain w2 where att2:
      "attempt serviceA optionsThrowing (adaptersA OpenAI) [] 20000 OpenAI 0 keysBC = (Inl ?err, w2)"
    by (cases "attempt serviceA optionsThrowing (adaptersA OpenAI) [] 20000 OpenAI 0 keysBC") simp
  have "fst (handleFailure serviceA optionsThrowing OpenAI ?err w2)
          = Inl (JsError ''callback failed'' None)"
    using cb by (rule handleFailure_callback_throws) simp
  then obtain w3 where hf: "handleFailure serviceA optionsThrowing OpenAI ?err w2
                              = (Inl (JsError ''callback failed'' None), w3)"
    by (cases "handleFailure serviceA optionsThrowing OpenAI ?err w2") simp
  have ad: "adapters serviceA ([OpenAI, Anthropic] ! 0) = Some (adaptersA ([OpenAI, Anthropic] ! 0))"
    by (simp add: serviceA_fields adapters_new)
  have "sendLoop serviceA optionsThrowing False 20000 [] [OpenAI, Anthropic] 0 None keysBC
          = (Inl (JsError ''callback failed'' None), w3)"
    using sendLoop_unfold [OF _ ad, of optionsThrowing False 20000 "[]" None keysBC] att2 hf
    by simp
  then have "fst (sendMessage serviceA [] optionsThrowing keysBC)
               = Inl (JsError ''callback failed'' None)"
    using off by (simp add: sendMessage_def tryA ms)
  with off att show ?thesis
    by (simp add: tryA classify_401)
qed

text \<open>
  Claim C3, amended. For every call with fallback disabled whose first attempt fails (the
  body of the \<open>try\<close> for the first provider to try throws \<open>err\<close>): sendMessage rejects
  at once; only that provider has been attempted; no ProviderSwitch event went to the
  onProviderSwitch callback or to the runtime bus; and, when the observers (the callbacks of
  the options and the listeners of the bus) return normally, the rejection is the
  classified error of that attempt.
\<close>

theorem no_fallback_short_circuit:
  assumes reg: "adapters svc = adapters (AIService_new complete)"
    and off: "\<not> fallbackEnabledOf options w"
    and first: "fst (attempt svc options (complete (hd (providersToTryOf options w)))
                       (mergedMessagesOf options messages) (timeoutMsOf options)
                       (hd (providersToTryOf options w)) 0 w) = Inl err"
  shows "isl (fst (sendMessage svc messages options w))
         \<and> attempted (newEffects w (snd (sendMessage svc messages options w)))
             = [hd (providersToTryOf options w)]
         \<and> switchCalls (newEffects w (snd (sendMessage svc messages options w))) = []
         \<and> filter isSwitch (emitted (newEffects w (snd (sendMessage svc messages options w)))) = []
         \<and> (quiet svc options \<longrightarrow>
              fst (sendMessage svc messages options w)
                = Inl (classifyError (hd (providersToTryOf options w)) err))"
proof -
  let ?ps = "providersToTryOf options w"
  let ?ms = "mergedMessagesOf options messages"
  let ?tm = "timeoutMsOf options"
  have lt: "0 < length ?ps" and hd: "?ps ! 0 = hd ?ps"
    using providersToTry_nonempty [of options w] by (simp_all add: hd_conv_nth)
  have ad: "adapters svc (?ps ! 0) = Some (complete (?ps ! 0))"
    by (simp add: reg adapters_new)
  note unfold = sendLoop_unfold [OF lt ad, of options "fallbackEnabledOf options w" ?tm ?ms None w]
  obtain w2 where att: "attempt svc options (complete (hd ?ps)) ?ms ?tm (hd ?ps) 0 w = (Inl err, w2)"
    using first by (cases "attempt svc options (complete (hd ?ps)) ?ms ?tm (hd ?ps) 0 w") simp
  obtain z w3 where hf: "handleFailure svc options (hd ?ps) err w2 = (z, w3)"
    by (cases "handleFailure svc options (hd ?ps) err w2")
  have res: "sendMessage svc messages options w
               = (case z of Inl t \<Rightarrow> Inl t | Inr le \<Rightarrow> Inl le, w3)"
    using unfold att hf off by (simp add: sendMessage_def hd split: sum.splits)
  have "appends isHealthEffect (log (AdapterComplete (hd ?ps) ?ms) w) w2"
    using attempt_appends [of "hd ?ps" ?ms w svc options "complete (hd ?ps)" ?tm 0] att by simp
  moreover have "appends isHealthEffect w2 w3"
    using handleFailure_appends [of w2 svc options "hd ?ps" err] hf by simp
  ultimately have "appends isHealthEffect (log (AdapterComplete (hd ?ps) ?ms) w) w3"
    by (rule appends_trans)
  from single_attempt_effects [OF this]
  have eff: "attempted (newEffects w w3) = [hd ?ps] \<and> switchCalls (newEffects w w3) = []
         \<and> filter isSwitch (emitted (newEffects w w3)) = []" .
  have rej: "isl (fst (sendMessage svc messages options w))"
    by (simp add: res split: sum.splits)
  have "quiet svc options \<longrightarrow> z = Inr (classifyError (hd ?ps) err)"
    using handleFailure_quiet [of svc options "hd ?ps" err w2] hf by auto
  then have "quiet svc options \<longrightarrow>
      fst (sendMessage svc messages options w) = Inl (classifyError (hd ?ps) err)"
    by (auto simp: res)
  with eff rej show ?thesis by (simp add: res)
qed

theorem no_fallback_short_circuit_witness:
  "adapters serviceA = adapters (AIService_new adaptersA)
   \<and> \<not> fallbackEnabledOf optionsNoFallback keysBC
   \<and> quiet serviceA optionsNoFallback
   \<and> providersToTryOf optionsNoFallback keysBC = [OpenAI, Anthropic]
   \<and> fst (attempt serviceA optionsNoFallback (adaptersA OpenAI) [] 20000 OpenAI 0 keysBC)
       = Inl (JsError ''401 unauthorized'' None)
   \<and> fst (sendMessage serviceA [] optionsNoFallback keysBC)
       = Inl (JsError ''401 unauthorized'' (Some Auth))
   \<and> attempted (newEffects keysBC (snd (sendMessage serviceA [] optionsNoFallback keysBC))) = [OpenAI]
   \<and> switchCalls (newEffects keysBC (snd (sendMessage serviceA [] optionsNoFallback keysBC))) = []"
proof -
  have off: "\<not> fallbackEnabledOf optionsNoFallback keysBC"
    by (simp add: fallbackEnabledOf_def optionsNoFallback_def)
  have ms: "mergedMessagesOf optionsNoFallback [] = []" "timeoutMsOf optionsNoFallback = 20000"
    by (simp_all add: mergedMessagesOf_def timeoutMsOf_def DEFAULT_TIMEOUT_MS_def
          optionsNoFallback_def optionsA_def optionsDefault_def)
  have att: "fst (attempt serviceA optionsNoFallback (adaptersA OpenAI) [] 20000 OpenAI 0 keysBC)
               = Inl (JsError ''401 unauthorized'' None)"
    by (rule attempt_fst_failed) (simp add: withTimeout_fst timerDelay_20000 adaptersA_def)
  then have first: "fst (attempt serviceA optionsNoFallback
                       (adaptersA (hd (providersToTryOf optionsNoFallback keysBC)))
                       (mergedMessagesOf optionsNoFallback []) (timeoutMsOf optionsNoFallback)
                       (hd (providersToTryOf optionsNoFallback keysBC)) 0 keysBC)
               = Inl (JsError ''401 unauthorized'' None)"
    by (simp add: tryA ms)
  note inst = no_fallback_short_circuit [OF serviceA_fields(1) off first]
  from inst quiet_serviceA(2) off att show ?thesis
    by (simp add: tryA classify_401 serviceA_fields)
qed

text \<open>
  Claim C10. When the selected provider has no usable credential and some other provider is
  configured, sendMessage never calls the adapter of the selected provider; its first
  attempt goes to the first configured provider of the priority order; and when that
  attempt succeeds, the result is that attempt's, with fallbackUsed false and a provider
  other than the selected one, after one attempt and no ProviderSwitch event.
\<close>

theorem unconfigured_selection_skipped:
  assumes reg: "adapters svc = adapters (AIService_new complete)"
    and unconf: "selectedProviderOf options w
                   \<notin> set (getConfiguredProviders (env_GEMINI_API_KEY w) (storedSecrets w))"
    and some: "getConfiguredProviders (env_GEMINI_API_KEY w) (storedSecrets w) \<noteq> []"
    and first: "first = hd (filter (\<lambda>p. p \<in> set (getConfiguredProviders (env_GEMINI_API_KEY w)
                                                      (storedSecrets w))) PROVIDER_ORDER)"
    and after: "w' = snd (sendMessage svc messages options w)"
  shows "selectedProviderOf options w \<notin> set (attempted (newEffects w w'))
         \<and> (\<exists>rest. attempted (newEffects w w') = first # rest)
         \<and> first \<noteq> selectedProviderOf options w
         \<and> (\<forall>r. fst (attempt svc options (complete first) (mergedMessagesOf options messages)
                        (timeoutMsOf options) first 0 w) = Inr r \<longrightarrow>
                fst (sendMessage svc messages options w) = Inr r
                \<and> \<not> fallbackUsed r \<and> res_provider r = first
                \<and> res_provider r \<noteq> selectedProviderOf options w
                \<and> attempted (newEffects w w') = [first]
                \<and> switchCalls (newEffects w w') = []
                \<and> filter isSwitch (emitted (newEffects w w')) = [])"
proof -
  let ?conf = "getConfiguredProviders (env_GEMINI_API_KEY w) (storedSecrets w)"
  let ?ms = "mergedMessagesOf options messages"
  let ?tm = "timeoutMsOf options"
  let ?fb = "fallbackEnabledOf options w"
  have ps: "providersToTryOf options w = ?conf"
    using unconf some by (rule providersToTry_unconfigured_selected)
  have f: "first = hd ?conf"
    by (simp add: first configured_in_order)
  have mem: "first \<in> set ?conf"
    using some by (simp add: f)
  with unconf have ne: "first \<noteq> selectedProviderOf options w"
    by auto
  have w': "w' = snd (sendLoop svc options ?fb ?tm ?ms ?conf 0 None w)"
    by (simp add: after sendMessage_def ps)
  have "appends (\<lambda>e. \<forall>q m. e = AdapterComplete q m \<longrightarrow> q \<in> set ?conf) w w'"
    unfolding w' using reg by (rule sendLoop_appends)
  from appends_newEffects [OF this]
  have "set (attempted (newEffects w w')) \<subseteq> set ?conf"
    by (intro attempted_within) simp
  with unconf have never: "selectedProviderOf options w \<notin> set (attempted (newEffects w w'))"
    by auto
  from sendLoop_first_attempt [OF reg some, of options ?fb ?tm ?ms None w]
  obtain d where "trace w' = trace w @ AdapterComplete first ?ms # d"
    by (auto simp: w' f)
  then have "attempted (newEffects w w') = first # attempted d"
    by (simp add: newEffects_def)
  then have starts: "\<exists>rest. attempted (newEffects w w') = first # rest" ..
  have ok: "fst (sendMessage svc messages options w) = Inr r
            \<and> \<not> fallbackUsed r \<and> res_provider r = first
            \<and> attempted (newEffects w w') = [first]
            \<and> switchCalls (newEffects w w') = []
            \<and> filter isSwitch (emitted (newEffects w w')) = []"
    if r: "fst (attempt svc options (complete first) ?ms ?tm first 0 w) = Inr r" for r
  proof -
    have lt: "0 < length ?conf" and hd: "?conf ! 0 = first"
      using some by (simp_all add: f hd_conv_nth)
    have ad: "adapters svc (?conf ! 0) = Some (complete (?conf ! 0))"
      by (simp add: reg adapters_new)
    obtain w2 where att: "attempt svc options (complete first) ?ms ?tm first 0 w = (Inr r, w2)"
      using r by (cases "attempt svc options (complete first) ?ms ?tm first 0 w") simp
    have loop: "sendLoop svc options ?fb ?tm ?ms ?conf 0 None w = (Inr r, w2)"
      using sendLoop_unfold [OF lt ad, of options ?fb ?tm ?ms None w] att by (simp add: hd)
    then have w2: "w' = w2"
      by (simp add: w')
    have "appends isHealthEffect (log (AdapterComplete first ?ms) w) w2"
      using attempt_appends [of first ?ms w svc options "complete first" ?tm 0] att by simp
    from single_attempt_effects [OF this] attempt_result_fields [OF att] loop
    show ?thesis by (simp add: w2 sendMessage_def ps)
  qed
  from never starts ne ok show ?thesis by simp
qed

lemma serviceOk_fields:
  "adapters serviceOk = adapters (AIService_new adaptersOk)" "runtimeListeners serviceOk = [quietListener]"
  by (simp_all add: serviceOk_def subscribeRuntimeEvents_def AIService_new_def)

lemma quiet_serviceOk: "quiet serviceOk optionsDefault" "quiet serviceOk optionsRejecting"
  by (simp_all add: quiet_def serviceOk_fields quietListener_def optionsDefault_def optionsRejecting_def)

lemma optionsDefault_resolved:
  "mergedMessagesOf optionsDefault [] = []" "timeoutMsOf optionsDefault = 20000"
  "selectedProviderOf optionsDefault keysBC = Gemini" "structured optionsDefault = None"
  by (simp_all add: mergedMessagesOf_def timeoutMsOf_def DEFAULT_TIMEOUT_MS_def
        selectedProviderOf_def optionsDefault_def keysBC_fields)

theorem unconfigured_selection_skipped_witness:
  "adapters serviceOk = adapters (AIService_new adaptersOk)
   \<and> selectedProviderOf optionsDefault keysBC = Gemini
   \<and> getConfiguredProviders (env_GEMINI_API_KEY keysBC) (storedSecrets keysBC) = [OpenAI, Anthropic]
   \<and> fst (attempt serviceOk optionsDefault (adaptersOk OpenAI) [] 20000 OpenAI 0 keysBC)
       = Inr \<lparr>res_text = ''hi'', res_provider = OpenAI, res_structured = None, fallbackUsed = False\<rparr>
   \<and> fst (sendMessage serviceOk [] optionsDefault keysBC)
       = Inr \<lparr>res_text = ''hi'', res_provider = OpenAI, res_structured = None, fallbackUsed = False\<rparr>
   \<and> attempted (newEffects keysBC (snd (sendMessage serviceOk [] optionsDefault keysBC))) = [OpenAI]
   \<and> filter isSwitch (emitted (newEffects keysBC (snd (sendMessage serviceOk [] optionsDefault keysBC)))) = []"
proof -
  have unconf: "selectedProviderOf optionsDefault keysBC
                  \<notin> set (getConfiguredProviders (env_GEMINI_API_KEY keysBC) (storedSecrets keysBC))"
    by (simp add: optionsDefault_resolved keysBC_fields)
  have some: "getConfiguredProviders (env_GEMINI_API_KEY keysBC) (storedSecrets keysBC) \<noteq> []"
    by (simp add: keysBC_fields)
  have first: "hd (filter (\<lambda>p. p \<in> set (getConfiguredProviders (env_GEMINI_API_KEY keysBC)
                                           (storedSecrets keysBC))) PROVIDER_ORDER) = OpenAI"
    by (simp add: keysBC_fields PROVIDER_ORDER_def)
  have "fst (withTimeout (adaptersOk OpenAI []) 20000 OpenAI (log (AdapterComplete OpenAI []) keysBC))
          = Inr ''hi''"
    by (simp add: withTimeout_fst timerDelay_20000 adaptersOk_def)
  from attempt_request_succeeded [where complete = "adaptersOk OpenAI" and mergedMessages = "[]"
      and i = 0, OF quiet_serviceOk(1) this]
  have att: "fst (attempt serviceOk optionsDefault (adaptersOk OpenAI) [] 20000 OpenAI 0 keysBC)
       = Inr \<lparr>res_text = ''hi'', res_provider = OpenAI, res_structured = None, fallbackUsed = False\<rparr>"
    by (auto simp: applyStructured_def optionsDefault_resolved)
  note inst = unconfigured_selection_skipped [OF serviceOk_fields(1) unconf some first [symmetric] refl,
      of "[]"]
  from inst att show ?thesis
    by (simp add: optionsDefault_resolved keysBC_fields serviceOk_fields)
qed

section \<open>Failed attempts and the recorded health\<close>

lemma callOptional_health: "providerHealth (snd (callOptional cb ev eff w)) = providerHealth w"
  by (simp add: callOptional_def log_def split: option.splits)

lemma deliver_health: "providerHealth (snd (deliver ls event w)) = providerHealth w"
  by (induction ls arbitrary: w) (simp_all add: log_def split: option.splits)

lemma emit_health: "providerHealth (snd (emitRuntimeEvent svc event w)) = providerHealth w"
  by (simp add: emitRuntimeEvent_def deliver_health log_def)

lemma andThen_health:
  assumes "providerHealth (snd r) = h" and "\<And>a w1. providerHealth (snd (k a w1)) = providerHealth w1"
  shows "providerHealth (snd (andThen r k)) = h"
  using assms by (cases r; cases "fst r") (auto simp: andThen_def)

lemma handleFailure_health:
  "providerHealth (snd (handleFailure svc options provider error w))
     = (providerHealth w)(provider \<mapsto> failureHealth (classifyError provider error))"
  unfolding handleFailure_def Let_def
  by (intro andThen_health) (simp_all add: callOptional_health emit_health saveProviderHealth_def)

lemma projection_new:
  assumes "appends P w w'"
  shows "emitted (trace w') = emitted (trace w) @ X \<Longrightarrow> emitted (newEffects w w') = X"
    and "attempted (trace w') = attempted (trace w) @ Y \<Longrightarrow> attempted (newEffects w w') = Y"
    and "switchCalls (trace w') = switchCalls (trace w) @ Z \<Longrightarrow> switchCalls (newEffects w w') = Z"
    and "healthCalls (trace w') = healthCalls (trace w) @ V \<Longrightarrow> healthCalls (newEffects w w') = V"
  using appends_newEffects [OF assms]
  by (metis emitted_append same_append_eq, metis attempted_append same_append_eq,
      metis switchCalls_append same_append_eq, metis healthCalls_append same_append_eq)

lemma candidates_distinct: "distinct (candidates p)"
  by (cases p) (simp_all add: candidates_eq PROVIDER_ORDER_def)

lemma providersToTry_distinct: "distinct (providersToTryOf options w)"
  by (simp add: providersToTryOf_def Let_def candidates_distinct)

lemma unauthorized_is_auth:
  assumes "contains (toLowerCase m) ''401 unauthorized''"
  shows "classifyError provider (JsError m None) = JsError m (Some Auth)"
proof -
  have "''401 unauthorized'' = [] @ ''401'' @ '' unauthorized''" by simp
  then have "contains ''401 unauthorized'' ''401''" unfolding contains_def by blast
  with assms have "contains (toLowerCase m) ''401''" by (rule contains_trans)
  then show ?thesis by (simp add: classifyError_def kindOfMessage_def includes_iff_contains Let_def)
qed

lemma scenario_A:
  assumes reg: "adapters svc = adapters (AIService_new complete)"
    and q: "quiet svc options"
    and fb: "fallbackEnabledOf options w"
    and ns: "structured options = None"
    and ps: "providersToTryOf options w = b # c # rest"
    and bfail: "complete b (mergedMessagesOf options messages) = Settles tb (Inl (JsError m None))"
               "tb < timerDelay (timeoutMsOf options)"
    and m401: "contains (toLowerCase m) ''401 unauthorized''"
    and cok: "complete c (mergedMessagesOf options messages) = Settles tc (Inr reply)"
             "tc < timerDelay (timeoutMsOf options)"
  shows "fst (sendMessage svc messages options w)
           = Inr \<lparr>res_text = reply, res_provider = c, res_structured = None, fallbackUsed = True\<rparr>
         \<and> emitted (newEffects w (snd (sendMessage svc messages options w)))
           = [provider_health b Unconfigured (Some m), provider_switch b c ''auth'',
              provider_health c Healthy None]
         \<and> switchCalls (newEffects w (snd (sendMessage svc messages options w)))
           = (case onProviderSwitch options of None \<Rightarrow> [] | Some f \<Rightarrow> [Switch b c ''auth''])
         \<and> attempted (newEffects w (snd (sendMessage svc messages options w))) = [b, c]
         \<and> providerHealth (snd (sendMessage svc messages options w)) b = Some Unconfigured
         \<and> providerHealth (snd (sendMessage svc messages options w)) c = Some Healthy"
proof -
  let ?ms = "mergedMessagesOf options messages"
  let ?tm = "timeoutMsOf options"
  let ?ps = "b # c # rest"
  let ?le = "JsError m (Some Auth)"
  have bc: "b \<noteq> c"
    using providersToTry_distinct [of options w] by (simp add: ps)
  have cls: "classifyError b (JsError m None) = ?le"
    using m401 by (rule unauthorized_is_auth)
  have ad: "adapters svc b = Some (complete b)" "adapters svc c = Some (complete c)"
    by (simp_all add: reg adapters_new)
  \<comment> \<open>index 0\<close>
  have "fst (withTimeout (complete b ?ms) ?tm b (log (AdapterComplete b ?ms) w)) = Inl (JsError m None)"
    using bfail by (simp add: withTimeout_fst)
  from attempt_request_failed [where complete = "complete b" and mergedMessages = ?ms
      and svc = svc and options = options and i = 0, OF this]
  obtain w2 where att0: "attempt svc options (complete b) ?ms ?tm b 0 w = (Inl (JsError m None), w2)"
    and t2: "trace w2 = trace w @ [AdapterComplete b ?ms]"
    and h2: "providerHealth w2 = providerHealth w"
    by blast
  from handleFailure_quiet [OF q, of b "JsError m None" w2]
  obtain w3 where hf0: "handleFailure svc options b (JsError m None) w2 = (Inr ?le, w3)"
    and e3: "emitted (trace w3) = emitted (trace w2) @ [provider_health b Unconfigured (Some m)]"
    and a3: "attempted (trace w3) = attempted (trace w2)"
    and s3: "switchCalls (trace w3) = switchCalls (trace w2)"
    and h3: "providerHealth w3 = (providerHealth w2)(b \<mapsto> Unconfigured)"
    by (auto simp: cls failureHealth_def)
  have step0: "sendLoop svc options True ?tm ?ms ?ps 0 None w
                 = sendLoop svc options True ?tm ?ms ?ps 1 (Some ?le) w3"
    using sendLoop_unfold [of 0 ?ps svc "complete b" options True ?tm ?ms None w] ad(1) att0 hf0
    by simp
  \<comment> \<open>index 1\<close>
  have sr: "switchReason (Some ?le) = ''auth''"
    by (simp add: switchReason_def)
  from announceSwitch_quiet [OF q, of b c "Some ?le" w3, unfolded sr]
  obtain w4 where ann: "announceSwitch svc options b c (Some ?le) w3 = (Inr (), w4)"
    and e4: "emitted (trace w4) = emitted (trace w3) @ [provider_switch b c ''auth'']"
    and a4: "attempted (trace w4) = attempted (trace w3)"
    and s4: "switchCalls (trace w4) = switchCalls (trace w3)
               @ (case onProviderSwitch options of None \<Rightarrow> [] | Some f \<Rightarrow> [Switch b c ''auth''])"
    and h4: "providerHealth w4 = providerHealth w3"
    by blast
  have "fst (withTimeout (complete c ?ms) ?tm c (log (AdapterComplete c ?ms) w4)) = Inr reply"
    using cok by (simp add: withTimeout_fst)
  from attempt_request_succeeded [where complete = "complete c" and mergedMessages = ?ms
      and i = 1, OF q this]
  obtain w5 where att1: "attempt svc options (complete c) ?ms ?tm c 1 w4
        = (Inr \<lparr>res_text = reply, res_provider = c, res_structured = None, fallbackUsed = True\<rparr>, w5)"
    and e5: "emitted (trace w5) = emitted (trace w4) @ [provider_health c Healthy None]"
    and a5: "attempted (trace w5) = attempted (trace w4) @ [c]"
    and s5: "switchCalls (trace w5) = switchCalls (trace w4)"
    and h5: "providerHealth w5 = (providerHealth w4)(c \<mapsto> Healthy)"
    by (auto simp: ns applyStructured_def)
  have step1: "sendLoop svc options True ?tm ?ms ?ps 1 (Some ?le) w3
        = (Inr \<lparr>res_text = reply, res_provider = c, res_structured = None, fallbackUsed = True\<rparr>, w5)"
    using sendLoop_unfold [of 1 ?ps svc "complete c" options True ?tm ?ms "Some ?le" w3] ad(2) ann att1
    by simp
  have res: "sendMessage svc messages options w
        = (Inr \<lparr>res_text = reply, res_provider = c, res_structured = None, fallbackUsed = True\<rparr>, w5)"
    using fb step0 step1 by (simp add: sendMessage_def ps)
  have grow: "appends (\<lambda>e. \<forall>q m. e = AdapterComplete q m \<longrightarrow> q \<in> set ?ps) w w5"
    using sendLoop_appends [OF reg, of ?ps w options True ?tm ?ms 0 None] step0 step1 by simp
  have "emitted (trace w5) = emitted (trace w)
          @ [provider_health b Unconfigured (Some m), provider_switch b c ''auth'',
             provider_health c Healthy None]"
    by (simp add: e5 e4 e3 t2 emitted_append)
  note em = projection_new(1) [OF grow this]
  have "attempted (trace w5) = attempted (trace w) @ [b, c]"
    by (simp add: a5 a4 a3 t2 attempted_append)
  note at = projection_new(2) [OF grow this]
  have "switchCalls (trace w5) = switchCalls (trace w)
          @ (case onProviderSwitch options of None \<Rightarrow> [] | Some f \<Rightarrow> [Switch b c ''auth''])"
    by (simp add: s5 s4 s3 t2 switchCalls_append)
  note sw = projection_new(3) [OF grow this]
  have hl: "providerHealth w5 b = Some Unconfigured" "providerHealth w5 c = Some Healthy"
    using bc by (simp_all add: h5 h4 h3 h2)
  from em at sw hl show ?thesis by (simp add: res)
qed

lemma deliver_projections:
  "emitted (trace (snd (deliver ls event w))) = emitted (trace w)
   \<and> healthCalls (trace (snd (deliver ls event w))) = healthCalls (trace w)"
  by (induction ls arbitrary: w)
     (auto simp: log_def emitted_append healthCalls_append split: option.splits)

lemma emit_projections:
  "emitted (trace (snd (emitRuntimeEvent svc event w))) = emitted (trace w) @ [event]
   \<and> healthCalls (trace (snd (emitRuntimeEvent svc event w))) = healthCalls (trace w)"
  by (simp add: emitRuntimeEvent_def deliver_projections log_def emitted_append healthCalls_append)

lemma handleFailure_hands_over:
  "case onProviderHealth options of
     None \<Rightarrow>
       emitted (trace (snd (handleFailure svc options provider error w)))
         = emitted (trace w) @ [failureEventOf provider error]
   | Some f \<Rightarrow>
       healthCalls (trace (snd (handleFailure svc options provider error w)))
         = healthCalls (trace w)
             @ [HealthOf provider (failureHealth (classifyError provider error))
                  (message (classifyError provider error))]"
proof (cases "onProviderHealth options")
  case None
  then show ?thesis
    by (simp add: handleFailure_def Let_def andThen_def callOptional_def failureEventOf_def
          split_beta emit_projections saveProviderHealth_def split: sum.splits)
next
  case (Some f)
  then show ?thesis
    by (cases "f (HealthOf provider (failureHealth (classifyError provider error))
                    (message (classifyError provider error)))")
       (simp_all add: handleFailure_def Let_def andThen_def callOptional_def split_beta
          emit_projections saveProviderHealth_def log_def healthCalls_append split: sum.splits)
qed

text \<open>
  Claim C4. After a failed attempt the catch block records for the candidate the health
  \<open>unconfigured\<close> when the classified kind is \<open>auth\<close> and \<open>error\<close> otherwise, and
  hands one ProviderHealth event with that health and the error's message to the health
  callback, or to the runtime bus when no callback was passed; the observers being quiet,
  the callback (when there is one) and the bus both get it. In particular, with quiet
  observers, fallback enabled and no structured parser: when the first provider to try
  \<open>b\<close> rejects in time (before the timer of its attempt fires) with an error whose
  message contains "401 unauthorized" (in any letter case) and the next one \<open>c\<close>
  answers in time, the result is the answer with
  provider \<open>c\<close> and fallbackUsed true; the bus has seen exactly ProviderHealth \<open>b\<close>
  unconfigured, ProviderSwitch from \<open>b\<close> to \<open>c\<close> with reason "auth" and ProviderHealth
  \<open>c\<close> healthy, in this order; and the recorded health is unconfigured for \<open>b\<close> and
  healthy for \<open>c\<close>.
\<close>

theorem failed_attempt_health:
  "providerHealth (snd (handleFailure svc options provider error w)) provider
     = Some (if classification (classifyError provider error) = Some Auth then Unconfigured else Error)
   \<and> (case onProviderHealth options of
        None \<Rightarrow>
          emitted (newEffects w (snd (handleFailure svc options provider error w)))
            = [provider_health provider
                 (if classification (classifyError provider error) = Some Auth then Unconfigured else Error)
                 (message (classifyError provider error))]
      | Some f \<Rightarrow>
          healthCalls (newEffects w (snd (handleFailure svc options provider error w)))
            = [HealthOf provider
                 (if classification (classifyError provider error) = Some Auth then Unconfigured else Error)
                 (message (classifyError provider error))])
   \<and> (quiet svc options \<longrightarrow>
        fst (handleFailure svc options provider error w) = Inr (classifyError provider error)
        \<and> emitted (newEffects w (snd (handleFailure svc options provider error w)))
            = [provider_health provider
                 (if classification (classifyError provider error) = Some Auth then Unconfigured else Error)
                 (message (classifyError provider error))]
        \<and> healthCalls (newEffects w (snd (handleFailure svc options provider error w)))
            = (case onProviderHealth options of
                 None \<Rightarrow> []
               | Some f \<Rightarrow>
                   [HealthOf provider
                      (if classification (classifyError provider error) = Some Auth
                       then Unconfigured else Error)
                      (message (classifyError provider error))]))
   \<and> (adapters svc = adapters (AIService_new complete) \<and> quiet svc options
        \<and> fallbackEnabledOf options w \<and> structured options = None
        \<and> providersToTryOf options w = b # c # rest
        \<and> complete b (mergedMessagesOf options messages) = Settles tb (Inl (JsError m None))
        \<and> tb < timerDelay (timeoutMsOf options)
        \<and> contains (toLowerCase m) ''401 unauthorized''
        \<and> complete c (mergedMessagesOf options messages) = Settles tc (Inr reply)
        \<and> tc < timerDelay (timeoutMsOf options)
      \<longrightarrow>
        fst (sendMessage svc messages options w)
          = Inr \<lparr>res_text = reply, res_provider = c, res_structured = None, fallbackUsed = True\<rparr>
        \<and> emitted (newEffects w (snd (sendMessage svc messages options w)))
          = [provider_health b Unconfigured (Some m), provider_switch b c ''auth'',
             provider_health c Healthy None]
        \<and> switchCalls (newEffects w (snd (sendMessage svc messages options w)))
          = (case onProviderSwitch options of None \<Rightarrow> [] | Some f \<Rightarrow> [Switch b c ''auth''])
        \<and> attempted (newEffects w (snd (sendMessage svc messages options w))) = [b, c]
        \<and> providerHealth (snd (sendMessage svc messages options w)) b = Some Unconfigured
        \<and> providerHealth (snd (sendMessage svc messages options w)) c = Some Healthy)"
proof -
  let ?cls = "classifyError provider error"
  let ?h = "if classification ?cls = Some Auth then Unconfigured else Error"
  let ?w' = "snd (handleFailure svc options provider error w)"
  have recorded: "providerHealth ?w' provider = Some ?h"
    by (simp add: handleFailure_health failureHealth_def)
  have observed: "fst (handleFailure svc options provider error w) = Inr ?cls
        \<and> emitted (newEffects w ?w') = [provider_health provider ?h (message ?cls)]
        \<and> healthCalls (newEffects w ?w')
            = (case onProviderHealth options of
                 None \<Rightarrow> []
               | Some f \<Rightarrow> [HealthOf provider ?h (message ?cls)])"
    if q: "quiet svc options"
  proof -
    from handleFailure_quiet [OF q, of provider error w, unfolded failureHealth_def]
    obtain w1 where hf: "handleFailure svc options provider error w = (Inr ?cls, w1)"
      and e: "emitted (trace w1) = emitted (trace w) @ [provider_health provider ?h (message ?cls)]"
      and c: "healthCalls (trace w1) = healthCalls (trace w)
                @ (case onProviderHealth options of
                     None \<Rightarrow> []
                   | Some f \<Rightarrow> [HealthOf provider ?h (message ?cls)])"
      by blast
    have grow: "appends isHealthEffect w w1"
      using handleFailure_appends [of w svc options provider error] hf by simp
    from projection_new(1) [OF grow e] projection_new(4) [OF grow c] hf
    show ?thesis by simp
  qed
  have grow: "appends isHealthEffect w ?w'"
    by (rule handleFailure_appends)
  have handed: "case onProviderHealth options of
        None \<Rightarrow> emitted (newEffects w ?w') = [provider_health provider ?h (message ?cls)]
      | Some f \<Rightarrow> healthCalls (newEffects w ?w') = [HealthOf provider ?h (message ?cls)]"
    using handleFailure_hands_over [where options = options and svc = svc and provider = provider
        and error = error and w = w]
      projection_new(1) [OF grow] projection_new(4) [OF grow]
    by (simp add: failureEventOf_def failureHealth_def split: option.splits)
  from recorded handed observed scenario_A [of svc complete options w b c rest messages tb m tc reply]
  show ?thesis by blast
qed

lemma optionsA_resolved:
  "mergedMessagesOf optionsA [] = []" "timeoutMsOf optionsA = 20000"
  "fallbackEnabledOf optionsA keysBC" "structured optionsA = None"
  by (simp_all add: mergedMessagesOf_def timeoutMsOf_def DEFAULT_TIMEOUT_MS_def
        fallbackEnabledOf_def optionsA_def optionsDefault_def keysBC_fields)

theorem failed_attempt_health_witness:
  "adapters serviceA = adapters (AIService_new adaptersA) \<and> quiet serviceA optionsA
   \<and> fallbackEnabledOf optionsA keysBC \<and> structured optionsA = None
   \<and> providersToTryOf optionsA keysBC = [OpenAI, Anthropic]
   \<and> adaptersA OpenAI [] = Settles 5 (Inl (JsError ''401 unauthorized'' None))
   \<and> contains (toLowerCase ''401 unauthorized'') ''401 unauthorized''
   \<and> adaptersA Anthropic [] = Settles 7 (Inr ''hello'')
   \<and> fst (sendMessage serviceA [] optionsA keysBC)
       = Inr \<lparr>res_text = ''hello'', res_provider = Anthropic, res_structured = None,
               fallbackUsed = True\<rparr>
   \<and> emitted (newEffects keysBC (snd (sendMessage serviceA [] optionsA keysBC)))
       = [provider_health OpenAI Unconfigured (Some ''401 unauthorized''),
          provider_switch OpenAI Anthropic ''auth'', provider_health Anthropic Healthy None]
   \<and> switchCalls (newEffects keysBC (snd (sendMessage serviceA [] optionsA keysBC)))
       = [Switch OpenAI Anthropic ''auth'']
   \<and> providerHealth (snd (sendMessage serviceA [] optionsA keysBC)) OpenAI = Some Unconfigured
   \<and> providerHealth (snd (sendMessage serviceA [] optionsA keysBC)) Anthropic = Some Healthy"
proof -
  have low: "toLowerCase ''401 unauthorized'' = ''401 unauthorized''"
    by code_simp
  have "''401 unauthorized'' = [] @ ''401 unauthorized'' @ []"
    by simp
  then have c401: "contains (toLowerCase ''401 unauthorized'') ''401 unauthorized''"
    unfolding low contains_def by blast
  have ad: "adaptersA OpenAI [] = Settles 5 (Inl (JsError ''401 unauthorized'' None))"
    "adaptersA Anthropic [] = Settles 7 (Inr ''hello'')"
    by (simp_all add: adaptersA_def)
  have cb: "onProviderSwitch optionsA = Some (\<lambda>event. None)"
    by (simp add: optionsA_def optionsDefault_def)
  have hyps: "adapters serviceA = adapters (AIService_new adaptersA) \<and> quiet serviceA optionsA
        \<and> fallbackEnabledOf optionsA keysBC \<and> structured optionsA = None
        \<and> providersToTryOf optionsA keysBC = OpenAI # Anthropic # []
        \<and> adaptersA OpenAI (mergedMessagesOf optionsA [])
            = Settles 5 (Inl (JsError ''401 unauthorized'' None))
        \<and> 5 < timerDelay (timeoutMsOf optionsA)
        \<and> contains (toLowerCase ''401 unauthorized'') ''401 unauthorized''
        \<and> adaptersA Anthropic (mergedMessagesOf optionsA []) = Settles 7 (Inr ''hello'')
        \<and> 7 < timerDelay (timeoutMsOf optionsA)"
    by (simp add: serviceA_fields quiet_serviceA optionsA_resolved timerDelay_20000 tryA ad c401)
  note inst = failed_attempt_health [where svc = serviceA and options = optionsA and w = keysBC
      and complete = adaptersA and b = OpenAI and c = Anthropic and rest = "[]" and messages = "[]"
      and tb = 5 and tc = 7 and m = "''401 unauthorized''" and reply = "''hello''"
      and provider = OpenAI and error = JsPrimitive,
      THEN conjunct2, THEN conjunct2, THEN conjunct2, THEN mp, OF hyps]
  from inst hyps ad show ?thesis
    by (simp add: cb optionsA_resolved timerDelay_20000)
qed

section \<open>When every candidate fails\<close>

lemma attempt_quiet_effects:
  assumes q: "quiet svc options"
  shows "emitted (trace (snd (attempt svc options complete ms tm p i w)))
           = emitted (trace w) @ successEvents (complete ms) tm p
         \<and> attempted (trace (snd (attempt svc options complete ms tm p i w)))
           = attempted (trace w) @ [p]"
proof (cases "requestSucceeds (complete ms) tm")
  case True
  from withTimeout_succeeds [OF True, of p "log (AdapterComplete p ms) w"]
  obtain v where "fst (withTimeout (complete ms) tm p (log (AdapterComplete p ms) w)) = Inr v" ..
  from attempt_request_succeeded [where complete = complete and mergedMessages = ms and i = i,
      OF q this]
  show ?thesis using True by (auto simp: successEvents_def)
next
  case False
  from withTimeout_fails [OF False, of p "log (AdapterComplete p ms) w"]
  obtain e where "fst (withTimeout (complete ms) tm p (log (AdapterComplete p ms) w)) = Inl e" ..
  from attempt_request_failed [where complete = complete and mergedMessages = ms and svc = svc
      and options = options and i = i, OF this]
  show ?thesis using False by (auto simp: successEvents_def emitted_append attempted_append)
qed

lemma failing_iteration:
  assumes reg: "adapters svc = adapters (AIService_new complete)"
    and q: "quiet svc options"
    and lt: "i < length ps"
    and fail: "fst (attempt svc options (complete (ps ! i)) ms tm (ps ! i) i
                 (if 0 < i then snd (announceSwitch svc options (ps ! (i - 1)) (ps ! i) le w) else w))
               = Inl e"
  shows "\<exists>w3. sendLoop svc options True tm ms ps i le w
               = (if i < length ps - 1
                  then sendLoop svc options True tm ms ps (i + 1) (Some (classifyError (ps ! i) e)) w3
                  else (Inl (classifyError (ps ! i) e), w3))
          \<and> emitted (trace w3) = emitted (trace w)
               @ (if 0 < i then [provider_switch (ps ! (i - 1)) (ps ! i) (switchReason le)] else [])
               @ successEvents (complete (ps ! i) ms) tm (ps ! i)
               @ [failureEventOf (ps ! i) e]
          \<and> attempted (trace w3) = attempted (trace w) @ [ps ! i]"
proof -
  let ?p = "ps ! i"
  have ad: "adapters svc ?p = Some (complete ?p)"
    by (simp add: reg adapters_new)
  note unfold = sendLoop_unfold [OF lt ad, of options True tm ms le w]
  obtain w1 where ann:
      "(if 0 < i then announceSwitch svc options (ps ! (i - 1)) ?p le w else (Inr (), w)) = (Inr (), w1)"
    and e1: "emitted (trace w1) = emitted (trace w)
               @ (if 0 < i then [provider_switch (ps ! (i - 1)) ?p (switchReason le)] else [])"
    and a1: "attempted (trace w1) = attempted (trace w)"
    using announceSwitch_quiet [OF q, of "ps ! (i - 1)" ?p le w] by (cases "0 < i") auto
  from ann have w1: "w1 = (if 0 < i then snd (announceSwitch svc options (ps ! (i - 1)) ?p le w) else w)"
    by (auto split: if_splits)
  obtain w2 where att: "attempt svc options (complete ?p) ms tm ?p i w1 = (Inl e, w2)"
    using fail unfolding w1 [symmetric]
    by (cases "attempt svc options (complete ?p) ms tm ?p i w1") simp
  from attempt_quiet_effects [OF q, of "complete ?p" ms tm ?p i w1] att
  have e2: "emitted (trace w2) = emitted (trace w1) @ successEvents (complete ?p ms) tm ?p"
    and a2: "attempted (trace w2) = attempted (trace w1) @ [?p]"
    by simp_all
  from handleFailure_quiet [OF q, of ?p e w2]
  obtain w3 where hf: "handleFailure svc options ?p e w2 = (Inr (classifyError ?p e), w3)"
    and e3: "emitted (trace w3) = emitted (trace w2) @ [failureEventOf ?p e]"
    and a3: "attempted (trace w3) = attempted (trace w2)"
    by (auto simp: failureEventOf_def)
  have "sendLoop svc options True tm ms ps i le w
          = (if i < length ps - 1
             then sendLoop svc options True tm ms ps (i + 1) (Some (classifyError ?p e)) w3
             else (Inl (classifyError ?p e), w3))"
    using unfold ann att hf by simp
  moreover have "emitted (trace w3) = emitted (trace w)
               @ (if 0 < i then [provider_switch (ps ! (i - 1)) ?p (switchReason le)] else [])
               @ successEvents (complete ?p ms) tm ?p @ [failureEventOf ?p e]"
    by (simp add: e3 e2 e1)
  moreover have "attempted (trace w3) = attempted (trace w) @ [?p]"
    by (simp add: a3 a2 a1)
  ultimately show ?thesis by blast
qed

lemma sendLoop_all_fail:
  assumes reg: "adapters svc = adapters (AIService_new complete)"
    and q: "quiet svc options"
    and fails: "\<forall>p \<in> set ps. \<forall>j w1. fst (attempt svc options (complete p) ms tm p j w1) = Inl (err p)"
  shows "i < length ps \<Longrightarrow>
         \<exists>w'. sendLoop svc options True tm ms ps i le w
                 = (Inl (classifyError (last ps) (err (last ps))), w')
          \<and> emitted (trace w') = emitted (trace w)
               @ (if 0 < i then [provider_switch (ps ! (i - 1)) (ps ! i) (switchReason le)] else [])
               @ successEvents (complete (ps ! i) ms) tm (ps ! i)
               @ [failureEventOf (ps ! i) (err (ps ! i))]
               @ concat (map (\<lambda>j. switchEventOf (ps ! (j - 1)) (ps ! j) (err (ps ! (j - 1)))
                                   # successEvents (complete (ps ! j) ms) tm (ps ! j)
                                   @ [failureEventOf (ps ! j) (err (ps ! j))])
                             [Suc i..<length ps])
          \<and> attempted (trace w') = attempted (trace w) @ drop i ps"
proof (induction "length ps - i" arbitrary: i le w)
  case 0
  then show ?case by simp
next
  case (Suc k)
  then have lt: "i < length ps" and k: "k = length ps - Suc i" by simp_all
  have "fst (attempt svc options (complete (ps ! i)) ms tm (ps ! i) i
                 (if 0 < i then snd (announceSwitch svc options (ps ! (i - 1)) (ps ! i) le w) else w))
               = Inl (err (ps ! i))"
    using fails lt by simp
  from failing_iteration [OF reg q lt this]
  obtain w3 where step: "sendLoop svc options True tm ms ps i le w
               = (if i < length ps - 1
                  then sendLoop svc options True tm ms ps (i + 1)
                         (Some (classifyError (ps ! i) (err (ps ! i)))) w3
                  else (Inl (classifyError (ps ! i) (err (ps ! i))), w3))"
    and e3: "emitted (trace w3) = emitted (trace w)
               @ (if 0 < i then [provider_switch (ps ! (i - 1)) (ps ! i) (switchReason le)] else [])
               @ successEvents (complete (ps ! i) ms) tm (ps ! i)
               @ [failureEventOf (ps ! i) (err (ps ! i))]"
    and a3: "attempted (trace w3) = attempted (trace w) @ [ps ! i]"
    by blast
  show ?case
  proof (cases "i < length ps - 1")
    case False
    with lt have last: "Suc i = length ps"
      by simp
    then have "last ps = ps ! i"
      using lt by (metis diff_Suc_1 last_conv_nth length_greater_0_conv less_nat_zero_code list.size(3))
    moreover have "drop i ps = [ps ! i]"
      using last lt by (metis Cons_nth_drop_Suc drop_all le_refl)
    ultimately show ?thesis
      using step e3 a3 False last by simp
  next
    case True
    then have lt': "Suc i < length ps" by simp
    from Suc.hyps(1) [of "Suc i" "Some (classifyError (ps ! i) (err (ps ! i)))" w3] k lt'
    obtain w' where rest: "sendLoop svc options True tm ms ps (Suc i)
                             (Some (classifyError (ps ! i) (err (ps ! i)))) w3
                 = (Inl (classifyError (last ps) (err (last ps))), w')"
      and e': "emitted (trace w') = emitted (trace w3)
               @ [provider_switch (ps ! i) (ps ! Suc i)
                    (switchReason (Some (classifyError (ps ! i) (err (ps ! i)))))]
               @ successEvents (complete (ps ! Suc i) ms) tm (ps ! Suc i)
               @ [failureEventOf (ps ! Suc i) (err (ps ! Suc i))]
               @ concat (map (\<lambda>j. switchEventOf (ps ! (j - 1)) (ps ! j) (err (ps ! (j - 1)))
                                   # successEvents (complete (ps ! j) ms) tm (ps ! j)
                                   @ [failureEventOf (ps ! j) (err (ps ! j))])
                             [Suc (Suc i)..<length ps])"
      and a': "attempted (trace w') = attempted (trace w3) @ drop (Suc i) ps"
      by auto
    have upt: "[Suc i..<length ps] = Suc i # [Suc (Suc i)..<length ps]"
      using lt' by (simp add: upt_conv_Cons)
    have drop: "drop i ps = ps ! i # drop (Suc i) ps"
      using lt by (simp add: Cons_nth_drop_Suc)
    have "sendLoop svc options True tm ms ps i le w
            = (Inl (classifyError (last ps) (err (last ps))), w')"
      using step True rest by simp
    moreover have "emitted (trace w') = emitted (trace w)
               @ (if 0 < i then [provider_switch (ps ! (i - 1)) (ps ! i) (switchReason le)] else [])
               @ successEvents (complete (ps ! i) ms) tm (ps ! i)
               @ [failureEventOf (ps ! i) (err (ps ! i))]
               @ concat (map (\<lambda>j. switchEventOf (ps ! (j - 1)) (ps ! j) (err (ps ! (j - 1)))
                                   # successEvents (complete (ps ! j) ms) tm (ps ! j)
                                   @ [failureEventOf (ps ! j) (err (ps ! j))])
                             [Suc i..<length ps])"
      unfolding upt by (simp add: e' e3 switchEventOf_def)
    moreover have "attempted (trace w') = attempted (trace w) @ drop i ps"
      by (simp add: a' a3 drop)
    ultimately show ?thesis by blast
  qed
qed

lemma event_kinds:
  "isSwitch (switchEventOf a b e)" "\<not> isHealth (switchEventOf a b e)"
  "\<not> isFailureHealth (switchEventOf a b e)"
  "isFailureHealth (failureEventOf p e)" "isHealth (failureEventOf p e)"
  "\<not> isSwitch (failureEventOf p e)"
  by (simp_all add: switchEventOf_def failureEventOf_def failureHealth_def)

lemma successEvents_kinds:
  "filter isSwitch (successEvents pr tm p) = []"
  "filter isFailureHealth (successEvents pr tm p) = []"
  "filter isHealth (successEvents pr tm p) = successEvents pr tm p"
  by (simp_all add: successEvents_def)

lemma map_nth_all: "map (\<lambda>j. f (ps ! j)) [0..<length ps] = map f ps"
  by (rule nth_equalityI) simp_all

lemma upt_from_0: "ps \<noteq> [] \<Longrightarrow> [0..<length ps] = 0 # [Suc 0..<length ps]"
  by (simp add: upt_conv_Cons)

lemma map_nth_from_0:
  "ps \<noteq> [] \<Longrightarrow> map (\<lambda>j. f (ps ! j)) (0 # [Suc 0..<length ps]) = map f ps"
  using upt_from_0 [of ps] map_nth_all [of f ps] by simp

lemma all_fail_emitted:
  assumes reg: "adapters svc = adapters (AIService_new complete)"
    and q: "quiet svc options"
    and fb: "fallbackEnabledOf options w"
    and ps: "ps = providersToTryOf options w"
    and fails: "\<forall>p \<in> set ps. \<forall>j w1.
                  fst (attempt svc options (complete p) (mergedMessagesOf options messages)
                         (timeoutMsOf options) p j w1) = Inl (err p)"
    and w': "w' = snd (sendMessage svc messages options w)"
  shows "fst (sendMessage svc messages options w) = Inl (classifyError (last ps) (err (last ps)))
         \<and> attempted (newEffects w w') = ps
         \<and> emitted (newEffects w w')
           = successEvents (complete (ps ! 0) (mergedMessagesOf options messages))
               (timeoutMsOf options) (ps ! 0)
             @ [failureEventOf (ps ! 0) (err (ps ! 0))]
             @ concat (map (\<lambda>j. switchEventOf (ps ! (j - 1)) (ps ! j) (err (ps ! (j - 1)))
                                 # successEvents (complete (ps ! j) (mergedMessagesOf options messages))
                                     (timeoutMsOf options) (ps ! j)
                                 @ [failureEventOf (ps ! j) (err (ps ! j))])
                           [Suc 0..<length ps])"
proof -
  let ?ms = "mergedMessagesOf options messages"
  let ?tm = "timeoutMsOf options"
  have lt: "0 < length ps"
    using providersToTry_nonempty [of options w] by (simp add: ps)
  from sendLoop_all_fail [OF reg q fails lt, of None w]
  obtain w1 where loop: "sendLoop svc options True ?tm ?ms ps 0 None w
                 = (Inl (classifyError (last ps) (err (last ps))), w1)"
    and e: "emitted (trace w1) = emitted (trace w)
             @ (successEvents (complete (ps ! 0) ?ms) ?tm (ps ! 0)
             @ [failureEventOf (ps ! 0) (err (ps ! 0))]
             @ concat (map (\<lambda>j. switchEventOf (ps ! (j - 1)) (ps ! j) (err (ps ! (j - 1)))
                                 # successEvents (complete (ps ! j) ?ms) ?tm (ps ! j)
                                 @ [failureEventOf (ps ! j) (err (ps ! j))])
                           [Suc 0..<length ps]))"
    and a: "attempted (trace w1) = attempted (trace w) @ ps"
    by auto
  have res: "sendMessage svc messages options w = (Inl (classifyError (last ps) (err (last ps))), w1)"
    using fb loop by (simp add: sendMessage_def ps)
  have grow: "appends (\<lambda>e. \<forall>q m. e = AdapterComplete q m \<longrightarrow> q \<in> set ps) w w1"
    using sendLoop_appends [OF reg, of ps w options True ?tm ?ms 0 None] loop by simp
  from projection_new(1) [OF grow e] projection_new(2) [OF grow a] res
  show ?thesis by (simp add: w')
qed

text \<open>
  Claim C2, amended. With fallback enabled and quiet observers, when the attempt of every
  provider to try fails (the body of its \<open>try\<close> throws \<open>err p\<close>): sendMessage rejects
  with the classified error of the last provider, which depends on no earlier error; the
  \<open>n\<close> providers have been attempted in order; the bus has seen exactly one ProviderHealth
  event with a failure health per provider, \<open>n\<close> in all (unconfigured for kind auth, error
  otherwise), and exactly \<open>n - 1\<close> ProviderSwitch events, each from a provider to the next
  with the kind of the error of the former as its reason. A provider whose request had
  succeeded before its attempt failed has a ProviderHealth healthy event before its
  failure event; when no request succeeded, the failure events are all the ProviderHealth
  events, \<open>n\<close> in number.
\<close>

theorem all_candidates_fail:
  assumes reg: "adapters svc = adapters (AIService_new complete)"
    and q: "quiet svc options"
    and fb: "fallbackEnabledOf options w"
    and ps: "ps = providersToTryOf options w"
    and fails: "\<forall>p \<in> set ps. \<forall>j w1.
                  fst (attempt svc options (complete p) (mergedMessagesOf options messages)
                         (timeoutMsOf options) p j w1) = Inl (err p)"
    and w': "w' = snd (sendMessage svc messages options w)"
  shows "fst (sendMessage svc messages options w) = Inl (classifyError (last ps) (err (last ps)))
         \<and> attempted (newEffects w w') = ps
         \<and> filter isFailureHealth (emitted (newEffects w w')) = map (\<lambda>p. failureEventOf p (err p)) ps
         \<and> length (filter isFailureHealth (emitted (newEffects w w'))) = length ps
         \<and> filter isSwitch (emitted (newEffects w w'))
             = map (\<lambda>j. switchEventOf (ps ! (j - 1)) (ps ! j) (err (ps ! (j - 1)))) [1..<length ps]
         \<and> length (filter isSwitch (emitted (newEffects w w'))) = length ps - 1
         \<and> filter isHealth (emitted (newEffects w w'))
             = concat (map (\<lambda>p. successEvents (complete p (mergedMessagesOf options messages))
                                   (timeoutMsOf options) p
                                 @ [failureEventOf p (err p)]) ps)
         \<and> ((\<forall>p \<in> set ps. \<not> requestSucceeds (complete p (mergedMessagesOf options messages))
                                  (timeoutMsOf options))
              \<longrightarrow> filter isHealth (emitted (newEffects w w')) = map (\<lambda>p. failureEventOf p (err p)) ps
                  \<and> length (filter isHealth (emitted (newEffects w w'))) = length ps)"
proof -
  let ?ms = "mergedMessagesOf options messages"
  let ?tm = "timeoutMsOf options"
  let ?succ = "\<lambda>p. successEvents (complete p ?ms) ?tm p"
  let ?fail = "\<lambda>p. failureEventOf p (err p)"
  let ?sw = "\<lambda>j. switchEventOf (ps ! (j - 1)) (ps ! j) (err (ps ! (j - 1)))"
  let ?E = "emitted (newEffects w w')"
  have ne: "ps \<noteq> []"
    using providersToTry_nonempty [of options w] by (simp add: ps)
  from all_fail_emitted [OF reg q fb ps fails w']
  have res: "fst (sendMessage svc messages options w) = Inl (classifyError (last ps) (err (last ps)))"
    and att: "attempted (newEffects w w') = ps"
    and E: "?E = ?succ (ps ! 0) @ [?fail (ps ! 0)]
              @ concat (map (\<lambda>j. ?sw j # ?succ (ps ! j) @ [?fail (ps ! j)]) [Suc 0..<length ps])"
    by simp_all
  have "filter isFailureHealth ?E = map (\<lambda>j. ?fail (ps ! j)) (0 # [Suc 0..<length ps])"
    unfolding E by (simp add: filter_concat comp_def event_kinds successEvents_kinds)
  then have fh: "filter isFailureHealth ?E = map ?fail ps"
    by (simp only: map_nth_from_0 [OF ne, of ?fail])
  have sw: "filter isSwitch ?E = map ?sw [1..<length ps]"
    unfolding E by (simp add: filter_concat comp_def event_kinds successEvents_kinds)
  have "filter isHealth ?E
          = concat (map (\<lambda>j. ?succ (ps ! j) @ [?fail (ps ! j)]) (0 # [Suc 0..<length ps]))"
    unfolding E by (simp add: filter_concat comp_def event_kinds successEvents_kinds)
  then have hl: "filter isHealth ?E = concat (map (\<lambda>p. ?succ p @ [?fail p]) ps)"
    by (simp only: map_nth_from_0 [OF ne, of "\<lambda>p. ?succ p @ [?fail p]"])
  have req: "filter isHealth ?E = map ?fail ps"
    if "\<forall>p \<in> set ps. \<not> requestSucceeds (complete p ?ms) ?tm"
  proof -
    from that have m: "map (\<lambda>p. ?succ p @ [?fail p]) ps = map (\<lambda>p. [?fail p]) ps"
      by (intro map_cong) (simp_all add: successEvents_def)
    show ?thesis unfolding hl m by simp
  qed
  from res att fh sw hl req show ?thesis by simp
qed

lemma keysABC_fields:
  "trace keysABC = []"
  "storedPrefs keysABC = \<lparr>defaultProvider = Gemini, providerFallbackEnabled = True\<rparr>"
  "getConfiguredProviders (env_GEMINI_API_KEY keysABC) (storedSecrets keysABC)
     = [Gemini, OpenAI, Anthropic]"
  by (simp_all add: keysABC_def emptyWorld_def getConfiguredProviders_def truthy_def)

lemma tryABC:
  "providersToTryOf optionsDefault keysABC = [Gemini, OpenAI, Anthropic]"
  "providersToTryOf optionsRejecting keysABC = [Gemini, OpenAI, Anthropic]"
  by (simp_all add: providersToTryOf_def selectedProviderOf_def keysABC_fields candidates_eq
        PROVIDER_ORDER_def optionsRejecting_def optionsDefault_def)

lemma fallback_default:
  "fallbackEnabledOf optionsDefault keysABC" "fallbackEnabledOf optionsRejecting keysABC"
  by (simp_all add: fallbackEnabledOf_def keysABC_fields optionsRejecting_def optionsDefault_def)

lemma optionsRejecting_resolved:
  "mergedMessagesOf optionsRejecting [] = []" "timeoutMsOf optionsRejecting = 20000"
  by (simp_all add: mergedMessagesOf_def timeoutMsOf_def DEFAULT_TIMEOUT_MS_def
        optionsRejecting_def optionsDefault_def)

lemma serviceDown_fields:
  "adapters serviceDown = adapters (AIService_new adaptersDown)"
  "runtimeListeners serviceDown = [quietListener]"
  by (simp_all add: serviceDown_def subscribeRuntimeEvents_def AIService_new_def)

lemma quiet_serviceDown: "quiet serviceDown optionsDefault"
  by (simp add: quiet_def serviceDown_fields quietListener_def optionsDefault_def)

lemma classify_network_down:
  "classifyError p (JsError ''network down'' None) = JsError ''network down'' (Some Network)"
  by code_simp

lemma classify_validation:
  "classifyError p structuredValidationError
     = JsError ''Structured output validation failed'' (Some Unknown)"
  by code_simp

theorem all_candidates_fail_witness:
  "adapters serviceDown = adapters (AIService_new adaptersDown)
   \<and> quiet serviceDown optionsDefault
   \<and> fallbackEnabledOf optionsDefault keysABC
   \<and> providersToTryOf optionsDefault keysABC = [Gemini, OpenAI, Anthropic]
   \<and> fst (attempt serviceDown optionsDefault (adaptersDown Anthropic) [] 20000 Anthropic 2 keysABC)
       = Inl (JsError ''network down'' None)
   \<and> fst (sendMessage serviceDown [] optionsDefault keysABC)
       = Inl (JsError ''network down'' (Some Network))
   \<and> attempted (newEffects keysABC (snd (sendMessage serviceDown [] optionsDefault keysABC)))
       = [Gemini, OpenAI, Anthropic]
   \<and> filter isHealth (emitted (newEffects keysABC (snd (sendMessage serviceDown [] optionsDefault keysABC))))
       = [provider_health Gemini Error (Some ''network down''),
          provider_health OpenAI Error (Some ''network down''),
          provider_health Anthropic Error (Some ''network down'')]
   \<and> filter isSwitch (emitted (newEffects keysABC (snd (sendMessage serviceDown [] optionsDefault keysABC))))
       = [provider_switch Gemini OpenAI ''network'', provider_switch OpenAI Anthropic ''network'']"
proof -
  have down: "fst (attempt serviceDown optionsDefault (adaptersDown p) [] 20000 p j w1)
                = Inl (JsError ''network down'' None)" for p j w1
    by (rule attempt_fst_failed) (simp add: withTimeout_fst timerDelay_20000 adaptersDown_def)
  then have fails: "\<forall>p \<in> set [Gemini, OpenAI, Anthropic]. \<forall>j w1.
      fst (attempt serviceDown optionsDefault (adaptersDown p) (mergedMessagesOf optionsDefault [])
             (timeoutMsOf optionsDefault) p j w1) = Inl (JsError ''network down'' None)"
    by (simp add: optionsDefault_resolved)
  have nosucc: "\<forall>p \<in> set [Gemini, OpenAI, Anthropic].
      \<not> requestSucceeds (adaptersDown p (mergedMessagesOf optionsDefault [])) (timeoutMsOf optionsDefault)"
    by (simp add: requestSucceeds_def timerDelay_20000 adaptersDown_def)
  note inst = all_candidates_fail [OF serviceDown_fields(1) quiet_serviceDown fallback_default(1)
      tryABC(1) [symmetric] fails refl]
  have upt: "[1..<length [Gemini, OpenAI, Anthropic]] = [1, 2]"
    by (simp add: upt_rec)
  from inst nosucc have "fst (sendMessage serviceDown [] optionsDefault keysABC)
       = Inl (JsError ''network down'' (Some Network))
   \<and> attempted (newEffects keysABC (snd (sendMessage serviceDown [] optionsDefault keysABC)))
       = [Gemini, OpenAI, Anthropic]
   \<and> filter isHealth (emitted (newEffects keysABC (snd (sendMessage serviceDown [] optionsDefault keysABC))))
       = [provider_health Gemini Error (Some ''network down''),
          provider_health OpenAI Error (Some ''network down''),
          provider_health Anthropic Error (Some ''network down'')]
   \<and> filter isSwitch (emitted (newEffects keysABC (snd (sendMessage serviceDown [] optionsDefault keysABC))))
       = [provider_switch Gemini OpenAI ''network'', provider_switch OpenAI Anthropic ''network'']"
    unfolding upt
    by (simp add: failureEventOf_def switchEventOf_def classify_network_down failureHealth_def
          switchReason_def successEvents_def)
  with down show ?thesis
    by (simp add: serviceDown_fields quiet_serviceDown fallback_default tryABC)
qed

text \<open>
  Claim C2, as stated, counts one ProviderHealth event per failed candidate. With three
  configured providers that answer and a structured validator that rejects every answer,
  fallback enabled, all three candidates fail and the call is rejected, and the bus has seen
  six ProviderHealth events: healthy and then error for each candidate.
\<close>

theorem health_event_count_counterexample:
  "fallbackEnabledOf optionsRejecting keysABC
   \<and> attempted (newEffects keysABC (snd (sendMessage serviceOk [] optionsRejecting keysABC)))
       = [Gemini, OpenAI, Anthropic]
   \<and> fst (sendMessage serviceOk [] optionsRejecting keysABC)
       = Inl (JsError ''Structured output validation failed'' (Some Unknown))
   \<and> emitted (newEffects keysABC (snd (sendMessage serviceOk [] optionsRejecting keysABC)))
       = [provider_health Gemini Healthy None,
          provider_health Gemini Error (Some ''Structured output validation failed''),
          provider_switch Gemini OpenAI ''unknown'',
          provider_health OpenAI Healthy None,
          provider_health OpenAI Error (Some ''Structured output validation failed''),
          provider_switch OpenAI Anthropic ''unknown'',
          provider_health Anthropic Healthy None,
          provider_health Anthropic Error (Some ''Structured output validation failed'')]
   \<and> length (filter isHealth
         (emitted (newEffects keysABC (snd (sendMessage serviceOk [] optionsRejecting keysABC))))) = 6"
proof -
  have rejected: "fst (attempt serviceOk optionsRejecting (adaptersOk p) [] 20000 p j w1)
                    = Inl structuredValidationError" for p j w1
  proof -
    have "fst (withTimeout (adaptersOk p []) 20000 p (log (AdapterComplete p []) w1)) = Inr ''hi''"
      by (simp add: withTimeout_fst timerDelay_20000 adaptersOk_def)
    from attempt_request_succeeded [where complete = "adaptersOk p" and mergedMessages = "[]"
        and i = j, OF quiet_serviceOk(2) this]
    show ?thesis
      by (auto simp: applyStructured_def optionsRejecting_def)
  qed
  then have fails: "\<forall>p \<in> set [Gemini, OpenAI, Anthropic]. \<forall>j w1.
      fst (attempt serviceOk optionsRejecting (adaptersOk p) (mergedMessagesOf optionsRejecting [])
             (timeoutMsOf optionsRejecting) p j w1) = Inl structuredValidationError"
    by (simp add: optionsRejecting_resolved)
  note inst = all_fail_emitted [OF serviceOk_fields(1) quiet_serviceOk(2) fallback_default(2)
      tryABC(2) [symmetric] fails refl]
  have upt: "[Suc 0..<length [Gemini, OpenAI, Anthropic]] = [1, 2]"
    by (simp add: upt_rec)
  have succ: "successEvents (adaptersOk p (mergedMessagesOf optionsRejecting []))
                (timeoutMsOf optionsRejecting) p = [provider_health p Healthy None]" for p
    by (simp add: successEvents_def requestSucceeds_def timerDelay_20000 adaptersOk_def optionsRejecting_resolved)
  from inst have "attempted (newEffects keysABC (snd (sendMessage serviceOk [] optionsRejecting keysABC)))
       = [Gemini, OpenAI, Anthropic]
   \<and> fst (sendMessage serviceOk [] optionsRejecting keysABC)
       = Inl (JsError ''Structured output validation failed'' (Some Unknown))
   \<and> emitted (newEffects keysABC (snd (sendMessage serviceOk [] optionsRejecting keysABC)))
       = [provider_health Gemini Healthy None,
          provider_health Gemini Error (Some ''Structured output validation failed''),
          provider_switch Gemini OpenAI ''unknown'',
          provider_health OpenAI Healthy None,
          provider_health OpenAI Error (Some ''Structured output validation failed''),
          provider_switch OpenAI Anthropic ''unknown'',
          provider_health Anthropic Healthy None,
          provider_health Anthropic Error (Some ''Structured output validation failed'')]"
    unfolding upt succ
    by (simp add: failureEventOf_def switchEventOf_def classify_validation failureHealth_def
          switchReason_def)
  then show ?thesis
    by (simp add: fallback_default)
qed

end
